theory Spec2Isabelle
  imports Complex_Main
begin

section \<open>Energy objective and flower-pollination search of Optimization\_oran\_fpa.py\<close>

text \<open>
  Numbers: Python and numpy floats are modelled as \<^typ>\<open>real\<close>. Rounding and overflow
  are not modelled, except in the binary64 rendering of lines 64 to 65 below, which
  serves the one property that depends on rounding. A numpy division by zero does not
  raise: it yields \<open>inf\<close> or \<open>nan\<close>, which no real number represents, so the model stops
  there with \<open>NonFinite\<close> and says nothing about what the program does with such a
  value.
\<close>

datatype py_error = IndexError | ValueError | NonFinite

text \<open>
  A numpy array of one axis is the list of its entries, an array of two axes the list of
  its rows (all rows of one length, as in every numpy array). Arrays of no axis or of
  more than two are not modelled; the search passes vectors and columns only.
\<close>

datatype ndarray = Arr1 "real list" | Arr2 "real list list"

text \<open>
  The thirteen workload arguments that both functions of the source pass on unchanged
  (\<open>L_epm\<close> to \<open>T\<close>, in the order of the source's parameter list).
\<close>

record workload =
  L_epm :: "real list"
  L_cpm :: "real list"
  P_epm :: real
  P_prime_epm :: real
  C_epm :: real
  P_cpm :: real
  P_prime_cpm :: real
  C_cpm :: real
  V_du :: "real list"
  V_cu :: "real list"
  alpha :: real
  beta :: real
  T :: real

subsection \<open>calculate\_energy\_total\<close>

text \<open>
  \<open>np.sum((L > 0) * P + P' * (L / C)) * T\<close> for a load vector \<open>L\<close>: the comparison gives a
  0/1 mask. With \<open>C = 0\<close> every entry of \<open>L / C\<close> is \<open>inf\<close> or \<open>nan\<close>.
\<close>

definition processing_energy :: "real list \<Rightarrow> real \<Rightarrow> real \<Rightarrow> real \<Rightarrow> real \<Rightarrow> py_error + real" where
  "processing_energy L P P' C Tm =
     (if C = 0 \<and> L \<noteq> [] then Inl NonFinite
      else Inr (sum_list (map (\<lambda>l. (if l > 0 then P else 0) + P' * (l / C)) L) * Tm))"

definition E_processing_epm :: "workload \<Rightarrow> py_error + real" where
  "E_processing_epm w = processing_energy (L_epm w) (P_epm w) (P_prime_epm w) (C_epm w) (T w)"

definition E_processing_cpm :: "workload \<Rightarrow> py_error + real" where
  "E_processing_cpm w = processing_energy (L_cpm w) (P_cpm w) (P_prime_cpm w) (C_cpm w) (T w)"

text \<open>\<open>A_t = np.array(A_t); if A_t.ndim == 1: A_t = A_t[:, np.newaxis]\<close>: a vector becomes a column.\<close>

fun as_matrix :: "ndarray \<Rightarrow> real list list" where
  "as_matrix (Arr1 xs) = map (\<lambda>x. [x]) xs"
| "as_matrix (Arr2 rows) = rows"

text \<open>\<open>shape[1]\<close> of a matrix; read by the source only when there are at least two rows.\<close>

fun ncols :: "real list list \<Rightarrow> nat" where
  "ncols [] = 0"
| "ncols (r # rs) = length r"

text \<open>\<open>(1 - M[:-1]) * M[1:]\<close>: row \<open>t\<close> of the result pairs row \<open>t\<close> with row \<open>t + 1\<close>.\<close>

definition transitions :: "real list list \<Rightarrow> real list list" where
  "transitions M = map2 (map2 (\<lambda>a b. (1 - a) * b)) (butlast M) (tl M)"

text \<open>
  \<open>M * v\<close> for a matrix of \<open>c\<close> columns and a vector of \<open>m\<close> entries, by numpy's
  broadcasting: entry by entry along each row when \<open>c = m\<close>; when \<open>m = 1\<close> the one entry
  of \<open>v\<close> scales each row, and when \<open>c = 1\<close> the one entry of a row scales \<open>v\<close>, so in
  both cases a row becomes its products with the entries of \<open>v\<close>; any other pair of
  shapes raises ValueError.
\<close>

definition broadcast_mul :: "real list list \<Rightarrow> real list \<Rightarrow> py_error + real list list" where
  "broadcast_mul M v =
     (if ncols M = length v then Inr (map (\<lambda>row. map2 (*) row v) M)
      else if length v = 1 \<or> ncols M = 1 then Inr (map (\<lambda>row. [x * y. x \<leftarrow> row, y \<leftarrow> v]) M)
      else Inl ValueError)"

definition np_sum2 :: "real list list \<Rightarrow> real" where
  "np_sum2 M = sum_list (map sum_list M)"

text \<open>\<open>np.sum((1 - M[:-1]) * M[1:] * (alpha * V + beta))\<close>.\<close>

definition migration_sum :: "real list list \<Rightarrow> real list \<Rightarrow> real \<Rightarrow> real \<Rightarrow> py_error + real" where
  "migration_sum M V a b =
     (case broadcast_mul (transitions M) (map (\<lambda>v. a * v + b) V) of
        Inl e \<Rightarrow> Inl e
      | Inr R \<Rightarrow> Inr (np_sum2 R))"

definition migration_epm :: "ndarray \<Rightarrow> workload \<Rightarrow> py_error + real" where
  "migration_epm A_t w =
     (let M = as_matrix A_t
      in if length M > 1 then migration_sum M (V_du w) (alpha w) (beta w) else Inr 0)"

text \<open>
  \<open>B_t\<close> is used as it comes: \<open>B_t.shape[1]\<close> of a vector with two or more entries raises
  IndexError.
\<close>

fun migration_cpm :: "ndarray \<Rightarrow> workload \<Rightarrow> py_error + real" where
  "migration_cpm (Arr1 xs) w = (if length xs > 1 then Inl IndexError else Inr 0)"
| "migration_cpm (Arr2 M) w =
     (if length M > 1 then migration_sum M (take (ncols M) (V_cu w)) (alpha w) (beta w)
      else Inr 0)"

definition calculate_energy_total :: "ndarray \<Rightarrow> ndarray \<Rightarrow> ndarray \<Rightarrow> workload \<Rightarrow> py_error + real" where
  "calculate_energy_total A_t B_t S_t w =
     (case E_processing_epm w of Inl e \<Rightarrow> Inl e | Inr pe \<Rightarrow>
     (case E_processing_cpm w of Inl e \<Rightarrow> Inl e | Inr pc \<Rightarrow>
     (case migration_epm A_t w of Inl e \<Rightarrow> Inl e | Inr me \<Rightarrow>
     (case migration_cpm B_t w of Inl e \<Rightarrow> Inl e | Inr mc \<Rightarrow>
        Inr (pe + pc + me + mc)))))"

subsection \<open>The random source\<close>

text \<open>
  The module-level generator of Python's \<open>random\<close> is ambient state. Here it is a fixed
  sequence of draws and a position in it: draw number \<open>p\<close> of the run yields
  \<open>random_at rs p\<close> when the call is \<open>random.random()\<close> (or the \<open>random()\<close> inside
  \<open>random.uniform\<close>), \<open>gauss_at rs p\<close> when it is \<open>random.gauss(0, 1)\<close> and a pair of
  indices decoded from \<open>sample_at rs p\<close> when it is \<open>random.sample(range(n), 2)\<close>.
\<close>

record rand_source =
  random_at :: "nat \<Rightarrow> real"
  gauss_at :: "nat \<Rightarrow> real"
  sample_at :: "nat \<Rightarrow> nat \<times> nat"

definition random_random :: "rand_source \<Rightarrow> nat \<Rightarrow> real \<times> nat" where
  "random_random rs pos = (random_at rs pos, Suc pos)"

text \<open>\<open>random.uniform(a, b)\<close> is \<open>a + (b - a) * random()\<close>.\<close>

definition random_uniform :: "rand_source \<Rightarrow> real \<Rightarrow> real \<Rightarrow> nat \<Rightarrow> real \<times> nat" where
  "random_uniform rs a b pos = (a + (b - a) * random_at rs pos, Suc pos)"

definition random_gauss :: "rand_source \<Rightarrow> nat \<Rightarrow> real \<times> nat" where
  "random_gauss rs pos = (gauss_at rs pos, Suc pos)"

text \<open>
  \<open>random.sample(range(n), 2)\<close> raises ValueError when \<open>n < 2\<close> and otherwise returns two
  different indices below \<open>n\<close>: the first of \<open>n\<close> choices, the second of the \<open>n - 1\<close> left.
\<close>

definition random_sample2 :: "rand_source \<Rightarrow> nat \<Rightarrow> nat \<Rightarrow> py_error + ((nat \<times> nat) \<times> nat)" where
  "random_sample2 rs n pos =
     (if n < 2 then Inl ValueError
      else (let (a, b) = sample_at rs pos;
                j = a mod n;
                k0 = b mod (n - 1);
                k = (if k0 < j then k0 else Suc k0)
            in Inr ((j, k), Suc pos)))"

subsection \<open>The store of arrays and the state of the search\<close>

text \<open>
  Every numpy operation of the search returns a new array object. The store is the list
  of all arrays created so far, and a reference to an array is its index in the store.
  \<open>population\<close> is the Python list of references, \<open>best_solution\<close> is a reference.
\<close>

record fpa_state =
  heap :: "real list list"
  population :: "nat list"
  best_solution :: nat
  best_fitness :: real
  convergence :: "real list"
  rng_pos :: nat
  stdout :: "(nat \<times> real) list"

definition new_array :: "real list \<Rightarrow> real list list \<Rightarrow> nat \<times> real list list" where
  "new_array v h = (length h, h @ [v])"

text \<open>\<open>np.array([random.uniform(b[0], b[1]) for b in bounds])\<close>, before the array is made.\<close>

fun draw_vector :: "rand_source \<Rightarrow> (real \<times> real) list \<Rightarrow> nat \<Rightarrow> real list \<times> nat" where
  "draw_vector rs [] pos = ([], pos)"
| "draw_vector rs (b # bs) pos =
     (let (x, p1) = random_uniform rs (fst b) (snd b) pos;
          (xs, p2) = draw_vector rs bs p1
      in (x # xs, p2))"

fun init_population ::
  "rand_source \<Rightarrow> (real \<times> real) list \<Rightarrow> nat \<Rightarrow> real list list \<Rightarrow> nat \<Rightarrow> nat list \<times> real list list \<times> nat" where
  "init_population rs bounds 0 h pos = ([], h, pos)"
| "init_population rs bounds (Suc k) h pos =
     (let (v, p1) = draw_vector rs bounds pos;
          (a, h1) = new_array v h;
          (as, h2, p2) = init_population rs bounds k h1 p1
      in (a # as, h2, p2))"

text \<open>
  One fitness evaluation of the search: the candidate is a vector, \<open>B_t = np.zeros((n, 1))\<close>
  and \<open>S_t = np.ones((n, 1))\<close>.
\<close>

definition fitness_of :: "workload \<Rightarrow> nat \<Rightarrow> real list list \<Rightarrow> nat \<Rightarrow> py_error + real" where
  "fitness_of w n h a =
     calculate_energy_total (Arr1 (h ! a)) (Arr2 (replicate n [0])) (Arr2 (replicate n [1])) w"

fun evaluate_all :: "workload \<Rightarrow> nat \<Rightarrow> real list list \<Rightarrow> nat list \<Rightarrow> py_error + real list" where
  "evaluate_all w n h [] = Inr []"
| "evaluate_all w n h (a # as) =
     (case fitness_of w n h a of Inl e \<Rightarrow> Inl e | Inr f \<Rightarrow>
     (case evaluate_all w n h as of Inl e \<Rightarrow> Inl e | Inr fs \<Rightarrow> Inr (f # fs)))"

text \<open>Python's \<open>min\<close> keeps the first least element; on an empty list it raises ValueError.\<close>

fun min_from :: "real \<Rightarrow> real list \<Rightarrow> real" where
  "min_from m [] = m"
| "min_from m (x # xs) = (if x < m then min_from x xs else min_from m xs)"

fun py_min :: "real list \<Rightarrow> py_error + real" where
  "py_min [] = Inl ValueError"
| "py_min (x # xs) = Inr (min_from x xs)"

text \<open>\<open>np.argmin\<close>: the index of the first least element; ValueError on an empty list.\<close>

fun argmin_from :: "real \<Rightarrow> nat \<Rightarrow> nat \<Rightarrow> real list \<Rightarrow> nat" where
  "argmin_from m mi i [] = mi"
| "argmin_from m mi i (x # xs) =
     (if x < m then argmin_from x i (Suc i) xs else argmin_from m mi (Suc i) xs)"

fun np_argmin :: "real list \<Rightarrow> py_error + nat" where
  "np_argmin [] = Inl ValueError"
| "np_argmin (x # xs) = Inr (argmin_from x 0 1 xs)"

subsection \<open>One individual: pollination and clip\<close>

text \<open>\<open>np.clip(a, a_min, a_max)\<close> is \<open>np.minimum(a_max, np.maximum(a, a_min))\<close>.\<close>

definition np_clip :: "real list \<Rightarrow> real list \<Rightarrow> real list \<Rightarrow> real list" where
  "np_clip a a_min a_max = map2 min a_max (map2 max a a_min)"

text \<open>
  \<open>population[i] = np.clip(population[i], [b[0] for b in bounds], [b[1] for b in bounds])\<close>
\<close>

definition clip_slot :: "(real \<times> real) list \<Rightarrow> nat \<Rightarrow> fpa_state \<Rightarrow> fpa_state" where
  "clip_slot bounds i st =
     (let (c, h) = new_array (np_clip (heap st ! (population st ! i)) (map fst bounds) (map snd bounds))
                     (heap st)
      in st\<lparr>heap := h, population := (population st)[i := c]\<rparr>)"

text \<open>
  \<open>step = s * (population[a] - population[b]); population[i] = population[i] + step\<close>,
  with references \<open>x\<close>, \<open>y\<close> for the two arrays subtracted: the difference, the step and
  the sum are three new arrays, and slot \<open>i\<close> is rebound to the sum.
\<close>

definition move_slot :: "real \<Rightarrow> nat \<Rightarrow> nat \<Rightarrow> nat \<Rightarrow> fpa_state \<Rightarrow> fpa_state" where
  "move_slot s x y i st =
     (let (d, h1) = new_array (map2 (-) (heap st ! x) (heap st ! y)) (heap st);
          (step, h2) = new_array (map ((*) s) (h1 ! d)) h1;
          (z, h3) = new_array (map2 (+) (h2 ! (population st ! i)) (h2 ! step)) h2
      in st\<lparr>heap := h3, population := (population st)[i := z]\<rparr>)"

text \<open>The body of \<open>for i in range(population_size)\<close>.\<close>

definition pollinate ::
  "rand_source \<Rightarrow> (real \<times> real) list \<Rightarrow> nat \<Rightarrow> nat \<Rightarrow> fpa_state \<Rightarrow> py_error + fpa_state" where
  "pollinate rs bounds population_size i st =
     (let (r, p1) = random_random rs (rng_pos st)
      in if r < 8 / 10 then
           (let (L, p2) = random_gauss rs p1
            in Inr (clip_slot bounds i
                 (move_slot L (population st ! i) (best_solution st) i (st\<lparr>rng_pos := p2\<rparr>))))
         else
           (let (epsilon, p2) = random_random rs p1
            in case random_sample2 rs population_size p2 of
                 Inl e \<Rightarrow> Inl e
               | Inr ((j, k), p3) \<Rightarrow>
                   Inr (clip_slot bounds i
                     (move_slot epsilon (population st ! j) (population st ! k) i
                        (st\<lparr>rng_pos := p3\<rparr>)))))"

fun pollinate_all ::
  "rand_source \<Rightarrow> (real \<times> real) list \<Rightarrow> nat \<Rightarrow> nat list \<Rightarrow> fpa_state \<Rightarrow> py_error + fpa_state" where
  "pollinate_all rs bounds population_size [] st = Inr st"
| "pollinate_all rs bounds population_size (i # is) st =
     (case pollinate rs bounds population_size i st of
        Inl e \<Rightarrow> Inl e
      | Inr st' \<Rightarrow> pollinate_all rs bounds population_size is st')"

subsection \<open>Generations\<close>

text \<open>\<open>convergence.append(best_fitness)\<close> and the line printed for the generation.\<close>

definition record_generation :: "nat \<Rightarrow> fpa_state \<Rightarrow> fpa_state" where
  "record_generation generation st =
     st\<lparr>convergence := convergence st @ [best_fitness st],
        stdout := stdout st @ [(generation + 1, best_fitness st)]\<rparr>"

text \<open>The body of \<open>for generation in range(max_generations)\<close>.\<close>

definition generation_step ::
  "rand_source \<Rightarrow> (real \<times> real) list \<Rightarrow> workload \<Rightarrow> nat \<Rightarrow> nat \<Rightarrow> nat \<Rightarrow> fpa_state \<Rightarrow> py_error + fpa_state" where
  "generation_step rs bounds w population_size n generation st =
     (case pollinate_all rs bounds population_size [0..<population_size] st of
        Inl e \<Rightarrow> Inl e
      | Inr st1 \<Rightarrow>
     (case evaluate_all w n (heap st1) (population st1) of
        Inl e \<Rightarrow> Inl e
      | Inr fitness \<Rightarrow>
     (case py_min fitness of
        Inl e \<Rightarrow> Inl e
      | Inr current_best \<Rightarrow>
          if current_best < best_fitness st1 then
            (case np_argmin fitness of
               Inl e \<Rightarrow> Inl e
             | Inr idx \<Rightarrow>
                 Inr (record_generation generation
                       (st1\<lparr>best_fitness := current_best, best_solution := population st1 ! idx\<rparr>)))
          else Inr (record_generation generation st1))))"

fun run_generations ::
  "rand_source \<Rightarrow> (real \<times> real) list \<Rightarrow> workload \<Rightarrow> nat \<Rightarrow> nat \<Rightarrow> nat list \<Rightarrow> fpa_state \<Rightarrow> py_error + fpa_state" where
  "run_generations rs bounds w population_size n [] st = Inr st"
| "run_generations rs bounds w population_size n (g # gs) st =
     (case generation_step rs bounds w population_size n g st of
        Inl e \<Rightarrow> Inl e
      | Inr st' \<Rightarrow> run_generations rs bounds w population_size n gs st')"

subsection \<open>flower\_pollination\_algorithm\<close>

text \<open>
  Lines 84 to 100 of the source: the population, \<open>n = len(population[0])\<close> (IndexError
  when the population is empty), the first fitness list, the first best and the first
  entry of \<open>convergence\<close>. \<open>range(population_size)\<close> is empty for a negative size.
\<close>

definition initial_state ::
  "rand_source \<Rightarrow> (real \<times> real) list \<Rightarrow> workload \<Rightarrow> int \<Rightarrow> py_error + (nat \<times> fpa_state)" where
  "initial_state rs bounds w population_size =
     (let (pop, h, p) = init_population rs bounds (nat population_size) [] 0
      in case pop of
           [] \<Rightarrow> Inl IndexError
         | a0 # _ \<Rightarrow>
             (let n = length (h ! a0)
              in case evaluate_all w n h pop of
                   Inl e \<Rightarrow> Inl e
                 | Inr fitness \<Rightarrow>
                (case np_argmin fitness of
                   Inl e \<Rightarrow> Inl e
                 | Inr idx \<Rightarrow>
                (case py_min fitness of
                   Inl e \<Rightarrow> Inl e
                 | Inr m \<Rightarrow>
                     Inr (n, \<lparr>heap = h, population = pop, best_solution = pop ! idx,
                              best_fitness = m, convergence = [m], rng_pos = p,
                              stdout = []\<rparr>)))))"

text \<open>The state after the first \<open>g\<close> generations of a run.\<close>

definition state_after ::
  "rand_source \<Rightarrow> nat \<Rightarrow> int \<Rightarrow> (real \<times> real) list \<Rightarrow> workload \<Rightarrow> py_error + fpa_state" where
  "state_after rs g population_size bounds w =
     (case initial_state rs bounds w population_size of
        Inl e \<Rightarrow> Inl e
      | Inr (n, st0) \<Rightarrow> run_generations rs bounds w (nat population_size) n [0..<g] st0)"

text \<open>
  What a call leaves behind: the value of \<open>return best_solution, best_fitness\<close>, the
  series handed to \<open>plt.plot\<close> and the lines printed. Python values are floats, arrays
  of one axis, lists and tuples; the source returns a tuple of an array and a float.
\<close>

datatype pyval = PyFloat real | PyArray "real list" | PyList "pyval list" | PyTuple "pyval list"

record fpa_outcome =
  returned :: pyval
  plotted :: "real list"
  printed :: "(nat \<times> real) list"

definition flower_pollination_algorithm ::
  "rand_source \<Rightarrow> int \<Rightarrow> int \<Rightarrow> (real \<times> real) list \<Rightarrow> workload \<Rightarrow> py_error + fpa_outcome" where
  "flower_pollination_algorithm rs max_generations population_size bounds w =
     (case state_after rs (nat max_generations) population_size bounds w of
        Inl e \<Rightarrow> Inl e
      | Inr st \<Rightarrow>
          Inr \<lparr>returned = PyTuple [PyArray (heap st ! best_solution st), PyFloat (best_fitness st)],
               plotted = convergence st,
               printed = stdout st\<rparr>)"

subsection \<open>Lines 64 to 65 in binary64\<close>









subsection \<open>Predicates and example data used by the statements\<close>

text \<open>
  The workloads on which no processing term divides by zero: a capacity is nonzero, or
  its load vector is empty.
\<close>

definition finite_workload :: "workload \<Rightarrow> bool" where
  "finite_workload w \<longleftrightarrow> (C_epm w \<noteq> 0 \<or> L_epm w = []) \<and> (C_cpm w \<noteq> 0 \<or> L_cpm w = [])"

text \<open>The workload of lines 147 to 159 of the source.\<close>

definition example_workload :: workload where
  "example_workload = \<lparr>L_epm = [50, 60], L_cpm = [70, 80], P_epm = 200, P_prime_epm = 50,
     C_epm = 100, P_cpm = 300, P_prime_cpm = 60, C_cpm = 120, V_du = [5, 10], V_cu = [15, 20],
     alpha = 1 / 2, beta = 10, T = 1\<rparr>"

text \<open>Loads, powers, volumes, coefficients and the interval are non-negative, capacities positive.\<close>

definition nonneg_workload :: "workload \<Rightarrow> bool" where
  "nonneg_workload w \<longleftrightarrow>
     (\<forall>l\<in>set (L_epm w). 0 \<le> l) \<and> (\<forall>l\<in>set (L_cpm w). 0 \<le> l) \<and>
     0 \<le> P_epm w \<and> 0 \<le> P_prime_epm w \<and> 0 < C_epm w \<and>
     0 \<le> P_cpm w \<and> 0 \<le> P_prime_cpm w \<and> 0 < C_cpm w \<and>
     (\<forall>v\<in>set (V_du w). 0 \<le> v) \<and> (\<forall>v\<in>set (V_cu w). 0 \<le> v) \<and>
     0 \<le> alpha w \<and> 0 \<le> beta w \<and> 0 \<le> T w"

definition nonneg_rows :: "real list list \<Rightarrow> bool" where
  "nonneg_rows M \<longleftrightarrow> (\<forall>row\<in>set M. \<forall>x\<in>set row. 0 \<le> x)"

definition unit_entries :: "ndarray \<Rightarrow> bool" where
  "unit_entries A \<longleftrightarrow> (\<forall>row\<in>set (as_matrix A). \<forall>x\<in>set row. 0 \<le> x \<and> x \<le> 1)"


text \<open>
  The references of a state are live: the population has \<open>P\<close> slots, every slot and
  \<open>best_solution\<close> refer to an array of the store, and these arrays have \<open>n\<close> entries.
\<close>

definition heap_ok :: "nat \<Rightarrow> nat \<Rightarrow> fpa_state \<Rightarrow> bool" where
  "heap_ok P n st \<longleftrightarrow>
     length (population st) = P \<and>
     (\<forall>a\<in>set (population st). a < length (heap st) \<and> length (heap st ! a) = n) \<and>
     best_solution st < length (heap st) \<and> length (heap st ! best_solution st) = n"

text \<open>The value \<open>vi + s * (vx - vy)\<close> that a pollination step proposes, before the clip.\<close>

definition proposal :: "real \<Rightarrow> real list \<Rightarrow> real list \<Rightarrow> real list \<Rightarrow> real list" where
  "proposal s vx vy vi = map2 (+) vi (map ((*) s) (map2 (-) vx vy))"

text \<open>The array recorded as best evaluates to the fitness recorded as best.\<close>

definition best_consistent :: "workload \<Rightarrow> nat \<Rightarrow> fpa_state \<Rightarrow> bool" where
  "best_consistent w n st \<longleftrightarrow>
     fitness_of w n (heap st) (best_solution st) = Inr (best_fitness st)"

text \<open>Two random sources yield the same draws at all positions below \<open>N\<close>.\<close>

definition agree_upto :: "nat \<Rightarrow> rand_source \<Rightarrow> rand_source \<Rightarrow> bool" where
  "agree_upto N rs rs' \<longleftrightarrow>
     (\<forall>p<N. random_at rs p = random_at rs' p \<and> gauss_at rs p = gauss_at rs' p \<and>
        sample_at rs p = sample_at rs' p)"

text \<open>
  Two random sources for the examples. They yield the same first ten draws and differ
  from then on.
\<close>

definition example_draws :: rand_source where
  "example_draws =
     \<lparr>random_at = (\<lambda>p. [1 / 4, 9 / 10, 3 / 4, 1 / 2, 1 / 4, 0, 9 / 10, 1 / 2, 0] ! (p mod 9)),
      gauss_at = (\<lambda>p. - 2),
      sample_at = (\<lambda>p. (p, p + 1))\<rparr>"

definition other_draws :: rand_source where
  "other_draws =
     \<lparr>random_at = (\<lambda>p. if 10 \<le> p then 0 else random_at example_draws p),
      gauss_at = (\<lambda>p. if 10 \<le> p then 7 else gauss_at example_draws p),
      sample_at = (\<lambda>p. if 10 \<le> p then (0, 0) else sample_at example_draws p)\<rparr>"

text \<open>
  The states of the example run with two individuals of two dimensions: after the
  initialisation, after the first individual of generation 1, after generation 1.
\<close>

definition example_bounds :: "(real \<times> real) list" where
  "example_bounds = [(0, 1), (0, 1)]"

definition example_st0 :: fpa_state where
  "example_st0 =
     \<lparr>heap = [[1 / 4, 9 / 10], [3 / 4, 1 / 2]], population = [0, 1], best_solution = 1,
      best_fitness = 18135 / 16, convergence = [18135 / 16], rng_pos = 4, stdout = []\<rparr>"

definition example_st_mid :: fpa_state where
  "example_st_mid =
     \<lparr>heap = [[1 / 4, 9 / 10], [3 / 4, 1 / 2], [- (1 / 2), 2 / 5], [1, - (4 / 5)],
              [5 / 4, 1 / 10], [1, 1 / 10]],
      population = [5, 1], best_solution = 1,
      best_fitness = 18135 / 16, convergence = [18135 / 16], rng_pos = 6, stdout = []\<rparr>"

definition example_st1 :: fpa_state where
  "example_st1 =
     \<lparr>heap = [[1 / 4, 9 / 10], [3 / 4, 1 / 2], [- (1 / 2), 2 / 5], [1, - (4 / 5)],
              [5 / 4, 1 / 10], [1, 1 / 10], [1 / 4, - (2 / 5)], [1 / 8, - (1 / 5)],
              [7 / 8, 3 / 10], [7 / 8, 3 / 10]],
      population = [5, 9], best_solution = 5, best_fitness = 1130,
      convergence = [18135 / 16, 1130], rng_pos = 9, stdout = [(1, 1130)]\<rparr>"

section \<open>Properties of the energy objective\<close>


lemma transitions_nonneg:
  assumes "\<forall>row\<in>set M. \<forall>x\<in>set row. 0 \<le> x \<and> x \<le> 1"
  shows "nonneg_rows (transitions M)"
  unfolding nonneg_rows_def transitions_def
proof (intro ballI)
  fix row x
  assume r: "row \<in> set (map2 (map2 (\<lambda>a b. (1 - a) * b)) (butlast M) (tl M))" and x: "x \<in> set row"
  from r obtain r1 r2 where rr: "r1 \<in> set (butlast M)" "r2 \<in> set (tl M)"
      and row: "row = map2 (\<lambda>a b. (1 - a) * b) r1 r2"
    by (auto elim!: in_set_zipE)
  from x row obtain a b where ab: "a \<in> set r1" "b \<in> set r2" "x = (1 - a) * b"
    by (auto elim!: in_set_zipE)
  have "r1 \<in> set M" using rr(1) by (rule in_set_butlastD)
  moreover have "r2 \<in> set M" using rr(2) by (cases M) auto
  ultimately have "a \<le> 1" "0 \<le> b" using assms ab by auto
  then show "0 \<le> x" using ab by simp
qed

lemma broadcast_mul_nonneg:
  assumes "nonneg_rows R" "\<forall>x\<in>set v. 0 \<le> x" "broadcast_mul R v = Inr Q"
  shows "nonneg_rows Q"
proof -
  consider (same) "Q = map (\<lambda>row. map2 (*) row v) R"
    | (outer) "Q = map (\<lambda>row. [x * y. x \<leftarrow> row, y \<leftarrow> v]) R"
    using assms(3) by (auto simp: broadcast_mul_def split: if_splits)
  then show ?thesis
  proof cases
    case same
    then show ?thesis
      using assms(1,2) unfolding nonneg_rows_def
      by (auto elim!: in_set_zipE)
  next
    case outer
    then show ?thesis
      using assms(1,2) unfolding nonneg_rows_def by auto
  qed
qed

lemma np_sum2_nonneg: "nonneg_rows Q \<Longrightarrow> 0 \<le> np_sum2 Q"
  unfolding nonneg_rows_def np_sum2_def
  by (intro sum_list_nonneg) (auto intro: sum_list_nonneg)

lemma migration_sum_nonneg:
  assumes "\<forall>row\<in>set M. \<forall>x\<in>set row. 0 \<le> x \<and> x \<le> 1" "\<forall>v\<in>set V. 0 \<le> v" "0 \<le> a" "0 \<le> b"
    "migration_sum M V a b = Inr m"
  shows "0 \<le> m"
proof -
  from assms(5) obtain Q where Q: "broadcast_mul (transitions M) (map (\<lambda>v. a * v + b) V) = Inr Q"
    and m: "m = np_sum2 Q"
    by (auto simp: migration_sum_def split: sum.splits)
  have "\<forall>x\<in>set (map (\<lambda>v. a * v + b) V). 0 \<le> x"
    using assms(2,3,4) by auto
  then have "nonneg_rows Q"
    using broadcast_mul_nonneg [OF transitions_nonneg [OF assms(1)] _ Q] by blast
  then show ?thesis unfolding m by (rule np_sum2_nonneg)
qed


lemma butlast_replicate_eq: "butlast (replicate n x) = replicate (n - 1) x"
proof (cases n)
  case 0
  then show ?thesis by simp
next
  case (Suc k)
  have "butlast (replicate k x @ [x]) = replicate k x" by simp
  then show ?thesis using Suc by (simp add: replicate_append_same)
qed

lemma transitions_zero_column: "transitions (replicate n [0]) = replicate (n - 1) [0]"
  by (simp add: transitions_def butlast_replicate_eq)

lemma np_sum2_replicate_zero: "np_sum2 (replicate k [0]) = 0"
  by (induction k) (auto simp: np_sum2_def)
lemma np_sum2_replicate_nil: "np_sum2 (replicate k []) = 0"
  by (induction k) (auto simp: np_sum2_def)

lemma ncols_replicate: "0 < k \<Longrightarrow> ncols (replicate k r) = length r"
  by (cases k) auto

lemma migration_cpm_zero_column: "migration_cpm (Arr2 (replicate n [0])) w = Inr 0"
proof (cases "n > 1")
  case False
  then show ?thesis by simp
next
  case True
  then have k: "0 < n - 1" by simp
  have n1: "ncols (replicate n [0::real]) = 1" using True by (simp add: ncols_replicate)
  show ?thesis
  proof (cases "V_cu w")
    case Nil
    then show ?thesis
      using True k by (simp add: n1 migration_sum_def transitions_zero_column broadcast_mul_def ncols_replicate np_sum2_replicate_nil)
  next
    case (Cons c cs)
    then show ?thesis
      using True k by (simp add: n1  migration_sum_def transitions_zero_column broadcast_mul_def ncols_replicate np_sum2_replicate_zero)
  qed
qed

lemma ncols_transitions_column:
  "1 < length xs \<Longrightarrow> ncols (transitions (map (\<lambda>x. [x]) xs)) = 1"
proof -
  assume "1 < length xs"
  then obtain a b rest where "xs = a # b # rest"
    by (cases xs; cases "tl xs") auto
  then show ?thesis by (simp add: transitions_def)
qed

lemma migration_epm_vector: "\<exists>m. migration_epm (Arr1 xs) w = Inr m"
  by (simp add: migration_epm_def migration_sum_def broadcast_mul_def ncols_transitions_column)

lemma processing_energy_finite: "C \<noteq> 0 \<or> L = [] \<Longrightarrow> \<exists>e. processing_energy L P P' C Tm = Inr e"
  by (auto simp: processing_energy_def)

lemma fitness_of_split:
  assumes "finite_workload w"
  shows "\<exists>pe pc m. E_processing_epm w = Inr pe \<and> E_processing_cpm w = Inr pc \<and>
           migration_epm (Arr1 (h ! a)) w = Inr m \<and> fitness_of w n h a = Inr (pe + pc + m)"
proof -
  obtain pe where pe: "E_processing_epm w = Inr pe"
    using assms processing_energy_finite unfolding finite_workload_def E_processing_epm_def by blast
  obtain pc where pc: "E_processing_cpm w = Inr pc"
    using assms processing_energy_finite unfolding finite_workload_def E_processing_cpm_def by blast
  obtain m where m: "migration_epm (Arr1 (h ! a)) w = Inr m"
    using migration_epm_vector by blast
  show ?thesis
    by (simp add: fitness_of_def calculate_energy_total_def pe pc m migration_cpm_zero_column
        del: migration_cpm.simps)
qed

lemma processing_energy_nonneg:
  assumes "\<forall>l\<in>set L. 0 \<le> l" "0 \<le> P" "0 \<le> P'" "0 < C" "0 \<le> Tm"
  shows "\<exists>e. processing_energy L P P' C Tm = Inr e \<and> 0 \<le> e"
proof -
  have "0 \<le> (if l > 0 then P else 0) + P' * (l / C)" if "l \<in> set L" for l
    using that assms by simp
  then have "0 \<le> sum_list (map (\<lambda>l. (if l > 0 then P else 0) + P' * (l / C)) L)"
    by (intro sum_list_nonneg) auto
  then show ?thesis
    using assms by (simp add: processing_energy_def)
qed

section \<open>Properties of binary64 rounding\<close>
















section \<open>Properties of one pollination step\<close>


lemma clip_move_eq:
  assumes "x < length (heap st)" "y < length (heap st)" "population st ! i < length (heap st)"
    "i < length (population st)"
  shows "clip_slot bounds i (move_slot s x y i st) =
     st\<lparr>heap := heap st @
            [map2 (-) (heap st ! x) (heap st ! y),
             map ((*) s) (map2 (-) (heap st ! x) (heap st ! y)),
             proposal s (heap st ! x) (heap st ! y) (heap st ! (population st ! i)),
             np_clip (proposal s (heap st ! x) (heap st ! y) (heap st ! (population st ! i)))
               (map fst bounds) (map snd bounds)],
         population := (population st)[i := length (heap st) + 3]\<rparr>"
  using assms
  by (simp add: clip_slot_def move_slot_def new_array_def proposal_def nth_append numeral_3_eq_3)

lemma sample_indices:
  assumes "random_sample2 rs n pos = Inr ((j, k), p)"
  shows "j < n \<and> k < n \<and> j \<noteq> k \<and> p = Suc pos"
proof -
  have n: "2 \<le> n" using assms by (auto simp: random_sample2_def split: if_splits)
  obtain a b where ab: "sample_at rs pos = (a, b)" by (cases "sample_at rs pos")
  have j: "j = a mod n" and k: "k = (if b mod (n - 1) < a mod n then b mod (n - 1) else Suc (b mod (n - 1)))"
    and p: "p = Suc pos"
    using assms n ab by (auto simp: random_sample2_def Let_def split: if_splits)
  have "b mod (n - 1) < n - 1" using n by simp
  moreover have "a mod n < n" using n by simp
  ultimately show ?thesis using j k p by auto
qed

lemma pollinate_cases:
  assumes ok: "heap_ok P n st" and i: "i < P" and run: "pollinate rs bounds P i st = Inr st'"
  shows "\<exists>s x y q. x < length (heap st) \<and> y < length (heap st) \<and>
           length (heap st ! x) = n \<and> length (heap st ! y) = n \<and> q \<le> 3 \<and>
           st' = st\<lparr>rng_pos := rng_pos st + q,
                    heap := heap st @
                      [map2 (-) (heap st ! x) (heap st ! y),
                       map ((*) s) (map2 (-) (heap st ! x) (heap st ! y)),
                       proposal s (heap st ! x) (heap st ! y) (heap st ! (population st ! i)),
                       np_clip (proposal s (heap st ! x) (heap st ! y) (heap st ! (population st ! i)))
                         (map fst bounds) (map snd bounds)],
                    population := (population st)[i := length (heap st) + 3]\<rparr>"
proof -
  have len: "length (population st) = P" using ok by (simp add: heap_ok_def)
  have addr: "population st ! j < length (heap st) \<and> length (heap st ! (population st ! j)) = n"
    if "j < P" for j
    using ok that len unfolding heap_ok_def by (metis nth_mem)
  have best: "best_solution st < length (heap st)" "length (heap st ! best_solution st) = n"
    using ok by (simp_all add: heap_ok_def)
  show ?thesis
  proof (cases "random_at rs (rng_pos st) < 8 / 10")
    case True
    then have "st' = clip_slot bounds i
                 (move_slot (gauss_at rs (Suc (rng_pos st))) (population st ! i) (best_solution st) i
                    (st\<lparr>rng_pos := Suc (Suc (rng_pos st))\<rparr>))"
      using run by (simp add: pollinate_def random_random_def random_gauss_def)
    then have "st' = st\<lparr>rng_pos := rng_pos st + 2,
                    heap := heap st @
                      [map2 (-) (heap st ! (population st ! i)) (heap st ! best_solution st),
                       map ((*) (gauss_at rs (Suc (rng_pos st)))) (map2 (-) (heap st ! (population st ! i)) (heap st ! best_solution st)),
                       proposal (gauss_at rs (Suc (rng_pos st))) (heap st ! (population st ! i)) (heap st ! best_solution st) (heap st ! (population st ! i)),
                       np_clip (proposal (gauss_at rs (Suc (rng_pos st))) (heap st ! (population st ! i)) (heap st ! best_solution st) (heap st ! (population st ! i)))
                         (map fst bounds) (map snd bounds)],
                    population := (population st)[i := length (heap st) + 3]\<rparr>"
      using addr [OF i] best i len by (simp add: clip_move_eq)
    then show ?thesis
      using addr [OF i] best by (intro exI [of _ "gauss_at rs (Suc (rng_pos st))"] exI [of _ "population st ! i"] exI [of _ "best_solution st"] exI [of _ 2]) simp
  next
    case False
    then obtain j k p3 where smp: "random_sample2 rs P (Suc (Suc (rng_pos st))) = Inr ((j, k), p3)"
      and st': "st' = clip_slot bounds i
                 (move_slot (random_at rs (Suc (rng_pos st))) (population st ! j) (population st ! k) i
                    (st\<lparr>rng_pos := p3\<rparr>))"
      using run by (auto simp: pollinate_def random_random_def split: sum.splits)
    from sample_indices [OF smp] have jk: "j < P" "k < P" and p3: "p3 = rng_pos st + 3" by simp_all
    have "st' = st\<lparr>rng_pos := rng_pos st + 3,
                    heap := heap st @
                      [map2 (-) (heap st ! (population st ! j)) (heap st ! (population st ! k)),
                       map ((*) (random_at rs (Suc (rng_pos st)))) (map2 (-) (heap st ! (population st ! j)) (heap st ! (population st ! k))),
                       proposal (random_at rs (Suc (rng_pos st))) (heap st ! (population st ! j)) (heap st ! (population st ! k)) (heap st ! (population st ! i)),
                       np_clip (proposal (random_at rs (Suc (rng_pos st))) (heap st ! (population st ! j)) (heap st ! (population st ! k)) (heap st ! (population st ! i)))
                         (map fst bounds) (map snd bounds)],
                    population := (population st)[i := length (heap st) + 3]\<rparr>"
      unfolding st' p3 using addr [OF i] addr [OF jk(1)] addr [OF jk(2)] i len by (simp add: clip_move_eq)
    then show ?thesis
      using addr [OF jk(1)] addr [OF jk(2)]
      by (intro exI [of _ "random_at rs (Suc (rng_pos st))"] exI [of _ "population st ! j"] exI [of _ "population st ! k"] exI [of _ 3]) simp
  qed
qed

lemma pollinate_total:
  assumes "2 \<le> P"
  shows "\<exists>st'. pollinate rs bounds P i st = Inr st'"
  using assms
  by (auto simp: pollinate_def random_random_def random_gauss_def random_sample2_def Let_def
      split: prod.splits)


lemma np_clip_length:
  "length x = length bounds \<Longrightarrow> length (np_clip x (map fst bounds) (map snd bounds)) = length bounds"
  by (simp add: np_clip_def)

lemma np_clip_nth:
  assumes "length x = length bounds" "d < length bounds"
  shows "np_clip x (map fst bounds) (map snd bounds) ! d
           = min (snd (bounds ! d)) (max (x ! d) (fst (bounds ! d)))"
  using assms by (simp add: np_clip_def)


lemma proposal_length:
  "length vx = n \<Longrightarrow> length vy = n \<Longrightarrow> length vi = n \<Longrightarrow> length (proposal s vx vy vi) = n"
  by (simp add: proposal_def)

lemma pollinate_props:
  assumes ok: "heap_ok P n st" and i: "i < P" and n: "length bounds = n"
    and run: "pollinate rs bounds P i st = Inr st'"
  shows "heap_ok P n st'"
    and "\<exists>hs. heap st' = heap st @ hs"
    and "best_solution st' = best_solution st"
    and "best_fitness st' = best_fitness st"
    and "convergence st' = convergence st"
    and "stdout st' = stdout st"
    and "rng_pos st \<le> rng_pos st'" and "rng_pos st' \<le> rng_pos st + 3"
    and "\<forall>j<P. j \<noteq> i \<longrightarrow> population st' ! j = population st ! j"
    and "\<exists>z. length z = n \<and>
           heap st' ! (population st' ! i) = np_clip z (map fst bounds) (map snd bounds)"
proof -
  from pollinate_cases [OF ok i run] obtain s x y q where
    x: "x < length (heap st)" "length (heap st ! x) = n" and
    y: "y < length (heap st)" "length (heap st ! y) = n" and q: "q \<le> 3" and
    st': "st' = st\<lparr>rng_pos := rng_pos st + q,
                    heap := heap st @
                      [map2 (-) (heap st ! x) (heap st ! y),
                       map ((*) s) (map2 (-) (heap st ! x) (heap st ! y)),
                       proposal s (heap st ! x) (heap st ! y) (heap st ! (population st ! i)),
                       np_clip (proposal s (heap st ! x) (heap st ! y) (heap st ! (population st ! i)))
                         (map fst bounds) (map snd bounds)],
                    population := (population st)[i := length (heap st) + 3]\<rparr>"
    by blast
  have len: "length (population st) = P" using ok by (simp add: heap_ok_def)
  have addr: "a < length (heap st) \<and> length (heap st ! a) = n" if "a \<in> set (population st)" for a
    using ok that unfolding heap_ok_def by blast
  have ai: "population st ! i < length (heap st)" "length (heap st ! (population st ! i)) = n"
    using addr [of "population st ! i"] i len by simp_all
  have best: "best_solution st < length (heap st)" "length (heap st ! best_solution st) = n"
    using ok by (simp_all add: heap_ok_def)
  let ?z = "proposal s (heap st ! x) (heap st ! y) (heap st ! (population st ! i))"
  have zl: "length ?z = n" using x y ai by (simp add: proposal_length)
  have cl: "length (np_clip ?z (map fst bounds) (map snd bounds)) = n"
    using zl n np_clip_length [of ?z bounds] by simp
  show "heap_ok P n st'"
    unfolding heap_ok_def
  proof (intro conjI ballI)
    show "length (population st') = P" by (simp add: st' len)
    show "best_solution st' < length (heap st')" using best by (simp add: st')
    show "length (heap st' ! best_solution st') = n" using best by (simp add: st' nth_append)
  next
    fix a assume "a \<in> set (population st')"
    then have "a \<in> set (population st) \<or> a = length (heap st) + 3"
      by (auto simp: st' dest: set_update_subset_insert [THEN subsetD])
    then show "a < length (heap st')"
      using addr [of a] by (auto simp: st')
  next
    fix a assume "a \<in> set (population st')"
    then have "a \<in> set (population st) \<or> a = length (heap st) + 3"
      by (auto simp: st' dest: set_update_subset_insert [THEN subsetD])
    then show "length (heap st' ! a) = n"
      using addr [of a] cl by (auto simp: st' nth_append)
  qed
  show "\<exists>hs. heap st' = heap st @ hs" by (simp add: st')
  show "best_solution st' = best_solution st" by (simp add: st')
  show "best_fitness st' = best_fitness st" by (simp add: st')
  show "convergence st' = convergence st" by (simp add: st')
  show "stdout st' = stdout st" by (simp add: st')
  show "rng_pos st \<le> rng_pos st'" by (simp add: st')
  show "rng_pos st' \<le> rng_pos st + 3" using q by (simp add: st')
  show "\<forall>j<P. j \<noteq> i \<longrightarrow> population st' ! j = population st ! j" by (simp add: st')
  show "\<exists>z. length z = n \<and>
           heap st' ! (population st' ! i) = np_clip z (map fst bounds) (map snd bounds)"
    using zl i len by (intro exI [of _ ?z]) (simp add: st' nth_append)
qed

section \<open>Properties of the loops\<close>


lemma pollinate_all_total:
  assumes "2 \<le> P"
  shows "\<exists>st'. pollinate_all rs bounds P is st = Inr st'"
proof (induction "is" arbitrary: st)
  case Nil
  then show ?case by simp
next
  case (Cons i "is")
  obtain st1 where "pollinate rs bounds P i st = Inr st1"
    using pollinate_total [OF assms] by blast
  then show ?case using Cons.IH [of st1] by simp
qed

lemma pollinate_all_props:
  assumes "heap_ok P n st" "\<forall>i\<in>set is. i < P" "length bounds = n"
    "pollinate_all rs bounds P is st = Inr st'"
  shows "heap_ok P n st' \<and> (\<exists>hs. heap st' = heap st @ hs) \<and>
         best_solution st' = best_solution st \<and> best_fitness st' = best_fitness st \<and>
         convergence st' = convergence st \<and> stdout st' = stdout st \<and>
         rng_pos st \<le> rng_pos st' \<and> rng_pos st' \<le> rng_pos st + 3 * length is"
  using assms
proof (induction "is" arbitrary: st)
  case Nil
  then show ?case by simp
next
  case (Cons i "is")
  from Cons.prems(4) obtain st1 where s1: "pollinate rs bounds P i st = Inr st1"
    and rest: "pollinate_all rs bounds P is st1 = Inr st'"
    by (auto split: sum.splits)
  have i: "i < P" using Cons.prems(2) by simp
  note p = pollinate_props [OF Cons.prems(1) i Cons.prems(3) s1]
  have "heap_ok P n st' \<and> (\<exists>hs. heap st' = heap st1 @ hs) \<and>
         best_solution st' = best_solution st1 \<and> best_fitness st' = best_fitness st1 \<and>
         convergence st' = convergence st1 \<and> stdout st' = stdout st1 \<and>
         rng_pos st1 \<le> rng_pos st' \<and> rng_pos st' \<le> rng_pos st1 + 3 * length is"
    using Cons.IH [OF p(1) _ Cons.prems(3) rest] Cons.prems(2) by simp
  moreover obtain hs where "heap st1 = heap st @ hs" using p(2) by blast
  ultimately show ?case
    using p(3-8) by auto
qed

lemma pollinate_all_clipped:
  assumes "heap_ok P n st" "\<forall>i\<in>set is. i < P" "length bounds = n"
    "\<And>z. length z = n \<Longrightarrow> Q (np_clip z (map fst bounds) (map snd bounds))"
    "pollinate_all rs bounds P is st = Inr st'"
    "j < P" "j \<in> set is \<or> Q (heap st ! (population st ! j))"
  shows "Q (heap st' ! (population st' ! j))"
  using assms(1,2,5,7)
proof (induction "is" arbitrary: st)
  case Nil
  then show ?case by simp
next
  case (Cons i "is")
  from Cons.prems(3) obtain st1 where s1: "pollinate rs bounds P i st = Inr st1"
    and rest: "pollinate_all rs bounds P is st1 = Inr st'"
    by (auto split: sum.splits)
  have i: "i < P" using Cons.prems(2) by simp
  note p = pollinate_props [OF Cons.prems(1) i assms(3) s1]
  have "j \<in> set is \<or> Q (heap st1 ! (population st1 ! j))"
  proof (cases "j = i")
    case True
    obtain z where "length z = n"
      "heap st1 ! (population st1 ! i) = np_clip z (map fst bounds) (map snd bounds)"
      using p(10) by blast
    then show ?thesis
      using assms(4) [of z] True by simp
  next
    case False
    show ?thesis
    proof (cases "j \<in> set is")
      case True
      then show ?thesis by simp
    next
      case notin: False
      then have inb: "Q (heap st ! (population st ! j))"
        using Cons.prems(4) False by simp
      have same: "population st1 ! j = population st ! j"
        using p(9) assms(6) False by simp
      have "population st ! j \<in> set (population st)"
        using Cons.prems(1) assms(6) by (simp add: heap_ok_def)
      then have "population st ! j < length (heap st)"
        using Cons.prems(1) by (simp add: heap_ok_def)
      moreover obtain hs where "heap st1 = heap st @ hs" using p(2) by blast
      ultimately have "heap st1 ! (population st1 ! j) = heap st ! (population st ! j)"
        using same by (simp add: nth_append)
      then show ?thesis using inb by simp
    qed
  qed
  then show ?case
    using Cons.IH [OF p(1) _ rest] Cons.prems(2) by simp
qed

lemma evaluate_all_props:
  assumes "evaluate_all w n h as = Inr fs"
  shows "length fs = length as \<and> (\<forall>i<length as. fitness_of w n h (as ! i) = Inr (fs ! i))"
  using assms
proof (induction as arbitrary: fs)
  case Nil
  then show ?case by simp
next
  case (Cons a as)
  from Cons.prems obtain f fs' where f: "fitness_of w n h a = Inr f"
    and fs': "evaluate_all w n h as = Inr fs'" and fs: "fs = f # fs'"
    by (auto split: sum.splits)
  show ?case
    using Cons.IH [OF fs'] f fs by (auto simp: nth_Cons split: nat.splits)
qed

lemma evaluate_all_total:
  assumes "finite_workload w"
  shows "\<exists>fs. evaluate_all w n h as = Inr fs"
proof (induction as)
  case Nil
  then show ?case by simp
next
  case (Cons a as)
  obtain f where "fitness_of w n h a = Inr f"
    using fitness_of_split [OF assms, of h a n] by blast
  then show ?case using Cons by auto
qed

lemma argmin_from_props:
  assumes "length pre = i" "mi < i" "pre ! mi = m"
  shows "argmin_from m mi i xs < i + length xs \<and>
         (pre @ xs) ! argmin_from m mi i xs = min_from m xs"
  using assms
proof (induction xs arbitrary: pre i mi m)
  case Nil
  then show ?case by (simp add: nth_append)
next
  case (Cons x xs)
  show ?case
  proof (cases "x < m")
    case True
    have "argmin_from x i (Suc i) xs < Suc i + length xs \<and>
          ((pre @ [x]) @ xs) ! argmin_from x i (Suc i) xs = min_from x xs"
      using Cons.prems by (intro Cons.IH) (simp_all add: nth_append)
    then show ?thesis using True by simp
  next
    case False
    have "argmin_from m mi (Suc i) xs < Suc i + length xs \<and>
          ((pre @ [x]) @ xs) ! argmin_from m mi (Suc i) xs = min_from m xs"
      using Cons.prems by (intro Cons.IH) (simp_all add: nth_append)
    then show ?thesis using False by simp
  qed
qed

lemma np_argmin_props:
  assumes "np_argmin fs = Inr idx"
  shows "idx < length fs \<and> py_min fs = Inr (fs ! idx)"
proof (cases fs)
  case Nil
  then show ?thesis using assms by simp
next
  case (Cons x xs)
  then have idx: "idx = argmin_from x 0 1 xs" using assms by simp
  have "argmin_from x 0 1 xs < 1 + length xs \<and> ([x] @ xs) ! argmin_from x 0 1 xs = min_from x xs"
    by (rule argmin_from_props) simp_all
  then show ?thesis using Cons idx by simp
qed

lemma min_from_fold: "min_from m xs = fold min xs m"
  by (induction xs arbitrary: m) (simp_all add: min_def)

lemma py_min_Min: "py_min fs = Inr m \<Longrightarrow> m = Min (set fs)"
  by (cases fs) (simp_all add: min_from_fold Min.set_eq_fold del: set_simps)


lemma fitness_of_append:
  "a < length h \<Longrightarrow> fitness_of w n (h @ hs) a = fitness_of w n h a"
  by (simp add: fitness_of_def nth_append)

lemma generation_step_cases:
  assumes step: "generation_step rs bounds w P n g st = Inr st'"
  shows "\<exists>st1 fitness current_best idx.
           pollinate_all rs bounds P [0..<P] st = Inr st1 \<and>
           evaluate_all w n (heap st1) (population st1) = Inr fitness \<and>
           py_min fitness = Inr current_best \<and>
           (if current_best < best_fitness st1
            then np_argmin fitness = Inr idx \<and>
                 st' = record_generation g
                         (st1\<lparr>best_fitness := current_best, best_solution := population st1 ! idx\<rparr>)
            else st' = record_generation g st1)"
  using step
  by (auto simp: generation_step_def split: sum.splits if_splits)

lemma generation_step_total:
  assumes "heap_ok P n st" "length bounds = n" "2 \<le> P" "finite_workload w"
  shows "\<exists>st'. generation_step rs bounds w P n g st = Inr st'"
proof -
  obtain st1 where s1: "pollinate_all rs bounds P [0..<P] st = Inr st1"
    using pollinate_all_total [OF assms(3)] by blast
  have "heap_ok P n st1"
    using pollinate_all_props [OF assms(1) _ assms(2) s1] by simp
  then have len: "length (population st1) = P" by (simp add: heap_ok_def)
  obtain fs where fs: "evaluate_all w n (heap st1) (population st1) = Inr fs"
    using evaluate_all_total [OF assms(4)] by blast
  then have "length fs = P" using evaluate_all_props [OF fs] len by simp
  then obtain f fs' where "fs = f # fs'" using assms(3) by (cases fs) auto
  then show ?thesis
    by (simp add: generation_step_def s1 fs)
qed

lemma generation_step_props:
  assumes ok: "heap_ok P n st" and n: "length bounds = n"
    and step: "generation_step rs bounds w P n g st = Inr st'"
  shows "heap_ok P n st'"
    and "\<exists>hs. heap st' = heap st @ hs"
    and "convergence st' = convergence st @ [best_fitness st']"
    and "stdout st' = stdout st @ [(g + 1, best_fitness st')]"
    and "best_fitness st' \<le> best_fitness st"
    and "best_consistent w n st \<Longrightarrow> best_consistent w n st'"
    and "rng_pos st' \<le> rng_pos st + 3 * P"
    and "(\<And>z. length z = n \<Longrightarrow> Q (np_clip z (map fst bounds) (map snd bounds))) \<Longrightarrow> j < P \<Longrightarrow>
           Q (heap st' ! (population st' ! j))"
proof -
  from generation_step_cases [OF step] obtain st1 fitness current_best idx where
    s1: "pollinate_all rs bounds P [0..<P] st = Inr st1" and
    fs: "evaluate_all w n (heap st1) (population st1) = Inr fitness" and
    cb: "py_min fitness = Inr current_best" and
    upd: "if current_best < best_fitness st1
            then np_argmin fitness = Inr idx \<and>
                 st' = record_generation g
                         (st1\<lparr>best_fitness := current_best, best_solution := population st1 ! idx\<rparr>)
            else st' = record_generation g st1"
    by blast
  have p: "heap_ok P n st1" "\<exists>hs. heap st1 = heap st @ hs" "best_solution st1 = best_solution st"
    "best_fitness st1 = best_fitness st" "convergence st1 = convergence st" "stdout st1 = stdout st"
    "rng_pos st1 \<le> rng_pos st + 3 * P"
    using pollinate_all_props [OF ok _ n s1] by simp_all
  have len: "length (population st1) = P" using p(1) by (simp add: heap_ok_def)
  have addr: "a < length (heap st1) \<and> length (heap st1 ! a) = n" if "a \<in> set (population st1)" for a
    using p(1) that unfolding heap_ok_def by blast
  note ev = evaluate_all_props [OF fs]
  have heap': "heap st' = heap st1" and pop': "population st' = population st1"
    and rng': "rng_pos st' = rng_pos st1"
    using upd by (auto simp: record_generation_def split: if_splits)
  show "\<exists>hs. heap st' = heap st @ hs" using p(2) heap' by simp
  show "convergence st' = convergence st @ [best_fitness st']"
    using upd p(5) by (auto simp: record_generation_def split: if_splits)
  show "stdout st' = stdout st @ [(g + 1, best_fitness st')]"
    using upd p(6) by (auto simp: record_generation_def split: if_splits)
  show "best_fitness st' \<le> best_fitness st"
    using upd p(4) by (auto simp: record_generation_def split: if_splits)
  show "rng_pos st' \<le> rng_pos st + 3 * P" using rng' p(7) by simp
  show "Q (heap st' ! (population st' ! j))"
    if "\<And>z. length z = n \<Longrightarrow> Q (np_clip z (map fst bounds) (map snd bounds))" "j < P"
    using pollinate_all_clipped [of P n st "[0..<P]" bounds Q rs st1 j, OF ok _ n _ s1 that(2)]
      that heap' pop' by simp
  show "heap_ok P n st'"
  proof (cases "current_best < best_fitness st1")
    case False
    then have "st' = record_generation g st1" using upd by simp
    then show ?thesis using p(1) by (simp add: heap_ok_def record_generation_def)
  next
    case True
    then have am: "np_argmin fitness = Inr idx"
      and st': "st' = record_generation g
                         (st1\<lparr>best_fitness := current_best, best_solution := population st1 ! idx\<rparr>)"
      using upd by simp_all
    have "idx < length (population st1)" using np_argmin_props [OF am] ev by simp
    then have "population st1 ! idx \<in> set (population st1)" by simp
    then show ?thesis
      using p(1) addr unfolding st' by (simp add: heap_ok_def record_generation_def)
  qed
  show "best_consistent w n st'" if bc: "best_consistent w n st"
  proof (cases "current_best < best_fitness st1")
    case False
    then have st': "st' = record_generation g st1" using upd by simp
    obtain hs where hs: "heap st1 = heap st @ hs" using p(2) by blast
    have "best_solution st < length (heap st)" using ok by (simp add: heap_ok_def)
    then have "fitness_of w n (heap st1) (best_solution st1) = fitness_of w n (heap st) (best_solution st)"
      unfolding hs p(3) by (rule fitness_of_append)
    then show ?thesis
      using bc p(4) unfolding best_consistent_def st' by (simp add: record_generation_def)
  next
    case True
    then have am: "np_argmin fitness = Inr idx"
      and st': "st' = record_generation g
                         (st1\<lparr>best_fitness := current_best, best_solution := population st1 ! idx\<rparr>)"
      using upd by simp_all
    have idx: "idx < length (population st1)" and "py_min fitness = Inr (fitness ! idx)"
      using np_argmin_props [OF am] ev by simp_all
    then have "current_best = fitness ! idx" using cb by simp
    moreover have "fitness_of w n (heap st1) (population st1 ! idx) = Inr (fitness ! idx)"
      using ev idx by simp
    ultimately show ?thesis
      unfolding best_consistent_def st' by (simp add: record_generation_def)
  qed
qed

lemma run_generations_append:
  "run_generations rs bounds w P n (gs @ gs') st =
     (case run_generations rs bounds w P n gs st of
        Inl e \<Rightarrow> Inl e
      | Inr st1 \<Rightarrow> run_generations rs bounds w P n gs' st1)"
  by (induction gs arbitrary: st) (auto split: sum.splits)

lemma run_generations_snoc:
  "run_generations rs bounds w P n [0..<Suc g] st =
     (case run_generations rs bounds w P n [0..<g] st of
        Inl e \<Rightarrow> Inl e
      | Inr st1 \<Rightarrow> generation_step rs bounds w P n g st1)"
  by (simp add: run_generations_append split: sum.splits)

section \<open>Properties of a run\<close>


lemma draw_vector_props:
  "draw_vector rs bounds pos = (v, p) \<Longrightarrow> length v = length bounds \<and> p = pos + length bounds"
proof (induction bounds arbitrary: pos v p)
  case Nil
  then show ?case by simp
next
  case (Cons b bs)
  obtain xs p2 where rec: "draw_vector rs bs (Suc pos) = (xs, p2)"
    by (cases "draw_vector rs bs (Suc pos)")
  from Cons.prems rec have "v = (fst b + (snd b - fst b) * random_at rs pos) # xs" "p = p2"
    by (simp_all add: random_uniform_def)
  then show ?case using Cons.IH [OF rec] by simp
qed

lemma init_population_props:
  assumes "init_population rs bounds k h pos = (pop, h', p)"
  shows "length pop = k \<and> (\<exists>hs. h' = h @ hs) \<and>
         (\<forall>a\<in>set pop. a < length h' \<and> length (h' ! a) = length bounds) \<and>
         p = pos + k * length bounds"
  using assms
proof (induction k arbitrary: h pos pop h' p)
  case 0
  then show ?case by simp
next
  case (Suc k)
  obtain v p1 where dv: "draw_vector rs bounds pos = (v, p1)"
    by (cases "draw_vector rs bounds pos")
  obtain as h2 p2 where rec: "init_population rs bounds k (h @ [v]) p1 = (as, h2, p2)"
    by (cases "init_population rs bounds k (h @ [v]) p1") auto
  have res: "pop = length h # as" "h' = h2" "p = p2"
    using Suc.prems dv rec by (simp_all add: new_array_def)
  from draw_vector_props [OF dv] have v: "length v = length bounds" "p1 = pos + length bounds"
    by simp_all
  from Suc.IH [OF rec] obtain hs where ih: "length as = k" "h2 = (h @ [v]) @ hs"
    "\<forall>a\<in>set as. a < length h2 \<and> length (h2 ! a) = length bounds" "p2 = p1 + k * length bounds"
    by blast
  have "h2 ! length h = v" using ih(2) by (simp add: nth_append)
  then show ?case
    using res ih v by auto
qed

lemma initial_state_props:
  assumes "initial_state rs bounds w population_size = Inr (n, st0)"
  shows "n = length bounds" and "heap_ok (nat population_size) n st0"
    and "best_consistent w n st0" and "convergence st0 = [best_fitness st0]"
    and "stdout st0 = []" and "rng_pos st0 = nat population_size * length bounds"
    and "1 \<le> population_size"
proof -
  obtain pop h p where ip: "init_population rs bounds (nat population_size) [] 0 = (pop, h, p)"
    by (cases "init_population rs bounds (nat population_size) [] 0") auto
  note props = init_population_props [OF ip]
  from assms ip obtain a0 rest where pop: "pop = a0 # rest"
    by (cases pop) (auto simp: initial_state_def)
  have n0: "length (h ! a0) = length bounds" using props pop by simp
  from assms ip pop obtain fitness idx m where
    fs: "evaluate_all w (length (h ! a0)) h pop = Inr fitness" and
    am: "np_argmin fitness = Inr idx" and mn: "py_min fitness = Inr m" and
    n: "n = length (h ! a0)" and
    st0: "st0 = \<lparr>heap = h, population = pop, best_solution = pop ! idx, best_fitness = m,
                 convergence = [m], rng_pos = p, stdout = []\<rparr>"
    by (auto simp: initial_state_def Let_def split: sum.splits)
  show "n = length bounds" using n n0 by simp
  note ev = evaluate_all_props [OF fs]
  have idx: "idx < length pop" and m: "m = fitness ! idx"
    using np_argmin_props [OF am] ev mn by simp_all
  then have mem: "pop ! idx \<in> set pop" by simp
  show "heap_ok (nat population_size) n st0"
    using props mem n n0 unfolding heap_ok_def st0 by simp
  show "best_consistent w n st0"
    using ev idx m n unfolding best_consistent_def st0 by simp
  show "convergence st0 = [best_fitness st0]" by (simp add: st0)
  show "stdout st0 = []" by (simp add: st0)
  show "rng_pos st0 = nat population_size * length bounds" using props by (simp add: st0)
  show "1 \<le> population_size" using props pop by (cases "population_size \<le> 0") auto
qed

lemma initial_state_total:
  assumes "1 \<le> population_size" "finite_workload w"
  shows "\<exists>st0. initial_state rs bounds w population_size = Inr (length bounds, st0)"
proof -
  obtain pop h p where ip: "init_population rs bounds (nat population_size) [] 0 = (pop, h, p)"
    by (cases "init_population rs bounds (nat population_size) [] 0") auto
  note props = init_population_props [OF ip]
  then have "length pop = nat population_size" by simp
  then obtain a0 rest where pop: "pop = a0 # rest"
    using assms(1) by (cases pop) auto
  have n0: "length (h ! a0) = length bounds" using props pop by simp
  obtain fitness where fs: "evaluate_all w (length bounds) h pop = Inr fitness"
    using evaluate_all_total [OF assms(2)] by blast
  have "length fitness = length pop" using evaluate_all_props [OF fs] by simp
  then obtain f fs' where "fitness = f # fs'" using pop by (cases fitness) auto
  then show ?thesis
    using ip pop fs n0 by (simp add: initial_state_def)
qed

lemma state_after_Suc:
  "state_after rs (Suc g) population_size bounds w =
     (case state_after rs g population_size bounds w of
        Inl e \<Rightarrow> Inl e
      | Inr st \<Rightarrow> generation_step rs bounds w (nat population_size) (length bounds) g st)"
proof (cases "initial_state rs bounds w population_size")
  case (Inl e)
  then show ?thesis by (simp add: state_after_def)
next
  case (Inr r)
  obtain n st0 where r: "r = (n, st0)" by (cases r)
  have "n = length bounds" using initial_state_props(1) Inr r by blast
  then show ?thesis
    using Inr r by (simp add: state_after_def run_generations_snoc del: upt_Suc split: sum.splits)
qed

lemma state_after_ok:
  assumes "state_after rs g population_size bounds w = Inr st"
  shows "heap_ok (nat population_size) (length bounds) st \<and>
         best_consistent w (length bounds) st \<and>
         length (convergence st) = Suc g \<and>
         sorted_wrt (\<lambda>a b. b \<le> a) (convergence st) \<and>
         (\<forall>x\<in>set (convergence st). best_fitness st \<le> x) \<and>
         last (convergence st) = best_fitness st \<and>
         map fst (stdout st) = [1..<Suc g] \<and>
         map snd (stdout st) = tl (convergence st) \<and>
         rng_pos st \<le> nat population_size * length bounds + 3 * nat population_size * g"
  using assms
proof (induction g arbitrary: st)
  case 0
  then obtain n where "initial_state rs bounds w population_size = Inr (n, st)"
    by (auto simp: state_after_def split: sum.splits)
  from initial_state_props [OF this] show ?case by simp
next
  case (Suc g)
  then obtain st1 where s1: "state_after rs g population_size bounds w = Inr st1"
    and step: "generation_step rs bounds w (nat population_size) (length bounds) g st1 = Inr st"
    by (auto simp: state_after_Suc split: sum.splits)
  note ih = Suc.IH [OF s1]
  then have ok: "heap_ok (nat population_size) (length bounds) st1" by simp
  note p = generation_step_props [OF ok refl step]
  have c: "convergence st = convergence st1 @ [best_fitness st]" by (rule p(3))
  have le: "best_fitness st \<le> best_fitness st1" by (rule p(5))
  have low: "\<forall>x\<in>set (convergence st1). best_fitness st \<le> x"
    using ih le by auto
  have "sorted_wrt (\<lambda>a b. b \<le> a) (convergence st)"
    unfolding c using ih low by (simp add: sorted_wrt_append)
  moreover have "map fst (stdout st) = [1..<Suc (Suc g)]"
    using p(4) ih by simp
  moreover have "map snd (stdout st) = tl (convergence st)"
    using p(4) c ih by (cases "convergence st1") auto
  moreover have "rng_pos st \<le> nat population_size * length bounds + 3 * nat population_size * Suc g"
    using p(7) ih by (simp add: algebra_simps)
  ultimately show ?case
    using p(1) p(6) ih c low by simp
qed

lemma state_after_total:
  assumes "2 \<le> population_size" "finite_workload w"
  shows "\<exists>st. state_after rs g population_size bounds w = Inr st"
proof (induction g)
  case 0
  obtain st0 where "initial_state rs bounds w population_size = Inr (length bounds, st0)"
    using initial_state_total [of population_size w rs bounds] assms by auto
  then show ?case by (simp add: state_after_def)
next
  case (Suc g)
  then obtain st1 where s1: "state_after rs g population_size bounds w = Inr st1" by blast
  have ok: "heap_ok (nat population_size) (length bounds) st1"
    using state_after_ok [OF s1] by simp
  have "2 \<le> nat population_size" using assms(1) by simp
  from generation_step_total [OF ok refl this assms(2)]
  show ?case by (simp add: state_after_Suc s1)
qed

lemma state_after_prefix:
  assumes "state_after rs G population_size bounds w = Inr stG" "g \<le> G"
  shows "\<exists>st. state_after rs g population_size bounds w = Inr st \<and>
           convergence st = take (Suc g) (convergence stG)"
  using assms
proof (induction G arbitrary: stG)
  case 0
  then show ?case using state_after_ok [of rs 0 population_size bounds w stG] by simp
next
  case (Suc G)
  then obtain st1 where s1: "state_after rs G population_size bounds w = Inr st1"
    and step: "generation_step rs bounds w (nat population_size) (length bounds) G st1 = Inr stG"
    by (auto simp: state_after_Suc split: sum.splits)
  have ok: "heap_ok (nat population_size) (length bounds) st1" and len: "length (convergence st1) = Suc G"
    using state_after_ok [OF s1] by simp_all
  have c: "convergence stG = convergence st1 @ [best_fitness stG]"
    using generation_step_props(3) [OF ok refl step] .
  show ?case
  proof (cases "g = Suc G")
    case True
    then show ?thesis using Suc.prems(1) c len by simp
  next
    case False
    then have "g \<le> G" using Suc.prems(2) by simp
    from Suc.IH [OF s1 this] obtain st where "state_after rs g population_size bounds w = Inr st"
      "convergence st = take (Suc g) (convergence st1)" by blast
    then show ?thesis using c len \<open>g \<le> G\<close> by simp
  qed
qed

lemma state_after_clipped:
  assumes "state_after rs (Suc g) population_size bounds w = Inr st"
    "\<And>z. length z = length bounds \<Longrightarrow> Q (np_clip z (map fst bounds) (map snd bounds))"
    "j < nat population_size"
  shows "Q (heap st ! (population st ! j))"
proof -
  from assms(1) obtain st1 where s1: "state_after rs g population_size bounds w = Inr st1"
    and step: "generation_step rs bounds w (nat population_size) (length bounds) g st1 = Inr st"
    by (auto simp: state_after_Suc split: sum.splits)
  have ok: "heap_ok (nat population_size) (length bounds) st1"
    using state_after_ok [OF s1] by simp
  show ?thesis
    using generation_step_props(8) [OF ok refl step, of Q] assms(2,3) by blast
qed

section \<open>Dependence on the random source\<close>


lemma agree_upto_mono: "agree_upto N rs rs' \<Longrightarrow> M \<le> N \<Longrightarrow> agree_upto M rs rs'"
  by (simp add: agree_upto_def)

lemma rng_pos_clip_slot: "rng_pos (clip_slot bounds i st) = rng_pos st"
  by (simp add: clip_slot_def new_array_def)

lemma rng_pos_move_slot: "rng_pos (move_slot s x y i st) = rng_pos st"
  by (simp add: move_slot_def new_array_def)

lemma pollinate_rng:
  assumes "pollinate rs bounds P i st = Inr st'"
  shows "rng_pos st' \<le> rng_pos st + 3"
  using assms
  by (auto simp: pollinate_def random_random_def random_gauss_def random_sample2_def Let_def
      rng_pos_clip_slot rng_pos_move_slot split: if_splits prod.splits)

lemma pollinate_agree:
  assumes "agree_upto (rng_pos st + 3) rs rs'"
  shows "pollinate rs bounds P i st = pollinate rs' bounds P i st"
proof -
  have "random_at rs (rng_pos st) = random_at rs' (rng_pos st)"
    "random_at rs (Suc (rng_pos st)) = random_at rs' (Suc (rng_pos st))"
    "gauss_at rs (Suc (rng_pos st)) = gauss_at rs' (Suc (rng_pos st))"
    "sample_at rs (Suc (Suc (rng_pos st))) = sample_at rs' (Suc (Suc (rng_pos st)))"
    using assms by (simp_all add: agree_upto_def)
  then show ?thesis
    by (simp add: pollinate_def random_random_def random_gauss_def random_sample2_def)
qed

lemma pollinate_all_rng:
  assumes "pollinate_all rs bounds P is st = Inr st'"
  shows "rng_pos st' \<le> rng_pos st + 3 * length is"
  using assms
proof (induction "is" arbitrary: st)
  case Nil
  then show ?case by simp
next
  case (Cons i "is")
  then obtain st1 where s1: "pollinate rs bounds P i st = Inr st1"
    and rest: "pollinate_all rs bounds P is st1 = Inr st'"
    by (auto split: sum.splits)
  show ?case using pollinate_rng [OF s1] Cons.IH [OF rest] by simp
qed

lemma pollinate_all_agree:
  assumes "agree_upto (rng_pos st + 3 * length is) rs rs'"
  shows "pollinate_all rs bounds P is st = pollinate_all rs' bounds P is st"
  using assms
proof (induction "is" arbitrary: st)
  case Nil
  then show ?case by simp
next
  case (Cons i "is")
  have eq: "pollinate rs bounds P i st = pollinate rs' bounds P i st"
    using Cons.prems by (intro pollinate_agree) (simp add: agree_upto_def)
  show ?case
  proof (cases "pollinate rs bounds P i st")
    case (Inl e)
    then show ?thesis using eq by simp
  next
    case (Inr st1)
    have "rng_pos st1 + 3 * length is \<le> rng_pos st + 3 * length (i # is)"
      using pollinate_rng [OF Inr] by simp
    then have "agree_upto (rng_pos st1 + 3 * length is) rs rs'"
      using Cons.prems agree_upto_mono by blast
    then show ?thesis using Cons.IH [of st1] Inr eq by simp
  qed
qed

lemma generation_step_agree:
  assumes "agree_upto (rng_pos st + 3 * P) rs rs'"
  shows "generation_step rs bounds w P n g st = generation_step rs' bounds w P n g st"
  using pollinate_all_agree [of st "[0..<P]" rs rs' bounds P] assms
  by (simp add: generation_step_def)

lemma generation_step_rng:
  assumes "generation_step rs bounds w P n g st = Inr st'"
  shows "rng_pos st' \<le> rng_pos st + 3 * P"
proof -
  from generation_step_cases [OF assms] obtain st1 fitness current_best idx where
    s1: "pollinate_all rs bounds P [0..<P] st = Inr st1" and
    upd: "if current_best < best_fitness st1
            then np_argmin fitness = Inr idx \<and>
                 st' = record_generation g
                         (st1\<lparr>best_fitness := current_best, best_solution := population st1 ! idx\<rparr>)
            else st' = record_generation g st1"
    by blast
  have "rng_pos st' = rng_pos st1"
    using upd by (auto simp: record_generation_def split: if_splits)
  then show ?thesis using pollinate_all_rng [OF s1] by simp
qed

lemma run_generations_agree:
  assumes "agree_upto (rng_pos st + 3 * P * length gs) rs rs'"
  shows "run_generations rs bounds w P n gs st = run_generations rs' bounds w P n gs st"
  using assms
proof (induction gs arbitrary: st)
  case Nil
  then show ?case by simp
next
  case (Cons g gs)
  have eq: "generation_step rs bounds w P n g st = generation_step rs' bounds w P n g st"
    using Cons.prems by (intro generation_step_agree) (simp add: agree_upto_def)
  show ?case
  proof (cases "generation_step rs bounds w P n g st")
    case (Inl e)
    then show ?thesis using eq by simp
  next
    case (Inr st1)
    have "rng_pos st1 + 3 * P * length gs \<le> rng_pos st + 3 * P * length (g # gs)"
      using generation_step_rng [OF Inr] by simp
    then have "agree_upto (rng_pos st1 + 3 * P * length gs) rs rs'"
      using Cons.prems agree_upto_mono by blast
    then show ?thesis using Cons.IH [of st1] Inr eq by simp
  qed
qed

lemma draw_vector_agree:
  assumes "agree_upto (pos + length bounds) rs rs'"
  shows "draw_vector rs bounds pos = draw_vector rs' bounds pos"
  using assms
proof (induction bounds arbitrary: pos)
  case Nil
  then show ?case by simp
next
  case (Cons b bs)
  have "random_at rs pos = random_at rs' pos" using Cons.prems by (simp add: agree_upto_def)
  moreover have "draw_vector rs bs (Suc pos) = draw_vector rs' bs (Suc pos)"
    using Cons.prems by (intro Cons.IH) simp
  ultimately show ?case by (simp add: random_uniform_def)
qed

lemma init_population_agree:
  assumes "agree_upto (pos + k * length bounds) rs rs'"
  shows "init_population rs bounds k h pos = init_population rs' bounds k h pos"
  using assms
proof (induction k arbitrary: h pos)
  case 0
  then show ?case by simp
next
  case (Suc k)
  have dv: "draw_vector rs bounds pos = draw_vector rs' bounds pos"
    using Suc.prems by (intro draw_vector_agree) (simp add: agree_upto_def)
  obtain v p1 where v: "draw_vector rs bounds pos = (v, p1)" by (cases "draw_vector rs bounds pos")
  have "p1 = pos + length bounds" using draw_vector_props [OF v] by simp
  then have "agree_upto (p1 + k * length bounds) rs rs'"
    using Suc.prems by (simp add: add.assoc add.commute)
  then have "init_population rs bounds k (h @ [v]) p1 = init_population rs' bounds k (h @ [v]) p1"
    by (rule Suc.IH)
  moreover have v': "draw_vector rs' bounds pos = (v, p1)" using dv v by simp
  ultimately show ?case using v by (simp add: new_array_def)
qed

lemma initial_state_agree:
  assumes "agree_upto (nat population_size * length bounds) rs rs'"
  shows "initial_state rs bounds w population_size = initial_state rs' bounds w population_size"
  using init_population_agree [of 0 "nat population_size" bounds rs rs' "[]"] assms
  by (simp add: initial_state_def)

lemma state_after_agree:
  assumes "agree_upto (nat population_size * length bounds + 3 * nat population_size * g) rs rs'"
  shows "state_after rs g population_size bounds w = state_after rs' g population_size bounds w"
proof -
  have init: "initial_state rs bounds w population_size = initial_state rs' bounds w population_size"
    using assms by (intro initial_state_agree) (simp add: agree_upto_def)
  show ?thesis
  proof (cases "initial_state rs bounds w population_size")
    case (Inl e)
    then show ?thesis using init by (simp add: state_after_def)
  next
    case (Inr r)
    obtain n st0 where r: "r = (n, st0)" by (cases r)
    have "rng_pos st0 = nat population_size * length bounds"
      using initial_state_props(6) Inr r by blast
    then have "agree_upto (rng_pos st0 + 3 * nat population_size * length [0..<g]) rs rs'"
      using assms by simp
    from run_generations_agree [OF this]
    show ?thesis using Inr r init by (simp add: state_after_def)
  qed
qed

section \<open>The whole call and the example runs\<close>

lemma clip_slot_fields:
  "best_fitness (clip_slot bounds i st) = best_fitness st"
  "best_solution (clip_slot bounds i st) = best_solution st"
  "convergence (clip_slot bounds i st) = convergence st"
  "stdout (clip_slot bounds i st) = stdout st"
  by (simp_all add: clip_slot_def new_array_def)

lemma move_slot_fields:
  "best_fitness (move_slot s x y i st) = best_fitness st"
  "best_solution (move_slot s x y i st) = best_solution st"
  "convergence (move_slot s x y i st) = convergence st"
  "stdout (move_slot s x y i st) = stdout st"
  by (simp_all add: move_slot_def new_array_def)

lemma pollinate_keeps:
  assumes "pollinate rs bounds P i st = Inr st'"
  shows "best_fitness st' = best_fitness st \<and> best_solution st' = best_solution st \<and>
         convergence st' = convergence st \<and> stdout st' = stdout st"
  using assms
  by (auto simp: pollinate_def random_random_def random_gauss_def random_sample2_def Let_def
      clip_slot_fields move_slot_fields split: if_splits prod.splits)

lemma pollinate_all_keeps:
  assumes "pollinate_all rs bounds P is st = Inr st'"
  shows "best_fitness st' = best_fitness st \<and> best_solution st' = best_solution st \<and>
         convergence st' = convergence st \<and> stdout st' = stdout st"
  using assms
proof (induction "is" arbitrary: st)
  case Nil
  then show ?case by simp
next
  case (Cons i "is")
  then obtain st1 where s1: "pollinate rs bounds P i st = Inr st1"
    and rest: "pollinate_all rs bounds P is st1 = Inr st'"
    by (auto split: sum.splits)
  show ?case using pollinate_keeps [OF s1] Cons.IH [OF rest] by simp
qed

lemma fpa_cases:
  assumes "flower_pollination_algorithm rs max_generations population_size bounds w = Inr out"
  shows "\<exists>st. state_after rs (nat max_generations) population_size bounds w = Inr st \<and>
           out = \<lparr>returned = PyTuple [PyArray (heap st ! best_solution st), PyFloat (best_fitness st)],
                  plotted = convergence st, printed = stdout st\<rparr>"
  using assms by (auto simp: flower_pollination_algorithm_def split: sum.splits)

lemma fpa_total:
  assumes "2 \<le> population_size \<or> (1 \<le> population_size \<and> max_generations \<le> 0)"
    "finite_workload w"
  shows "\<exists>st. state_after rs (nat max_generations) population_size bounds w = Inr st \<and>
           flower_pollination_algorithm rs max_generations population_size bounds w =
             Inr \<lparr>returned = PyTuple [PyArray (heap st ! best_solution st), PyFloat (best_fitness st)],
                  plotted = convergence st, printed = stdout st\<rparr>"
proof -
  have "\<exists>st. state_after rs (nat max_generations) population_size bounds w = Inr st"
  proof (cases "2 \<le> population_size")
    case True
    then show ?thesis using state_after_total [OF _ assms(2)] by blast
  next
    case False
    then have one: "1 \<le> population_size" and zero: "nat max_generations = 0"
      using assms(1) by simp_all
    obtain st0 where "initial_state rs bounds w population_size = Inr (length bounds, st0)"
      using initial_state_total [OF one assms(2)] by blast
    then show ?thesis by (simp add: state_after_def zero)
  qed
  then obtain st where "state_after rs (nat max_generations) population_size bounds w = Inr st"
    by blast
  then show ?thesis by (simp add: flower_pollination_algorithm_def)
qed

lemma py_min_le:
  assumes "py_min fs = Inr m" "i < length fs"
  shows "m \<le> fs ! i"
proof -
  have "m = Min (set fs)" using py_min_Min [OF assms(1)] .
  then show ?thesis using assms(2) by simp
qed

lemma initial_best_le:
  assumes "initial_state rs bounds w population_size = Inr (n, st0)"
    "j < nat population_size" "fitness_of w n (heap st0) (population st0 ! j) = Inr f"
  shows "best_fitness st0 \<le> f"
proof -
  obtain pop h p where ip: "init_population rs bounds (nat population_size) [] 0 = (pop, h, p)"
    by (cases "init_population rs bounds (nat population_size) [] 0") auto
  note props = init_population_props [OF ip]
  from assms(1) ip obtain a0 rest where pop: "pop = a0 # rest"
    by (cases pop) (auto simp: initial_state_def)
  from assms(1) ip pop obtain fitness idx m where
    fs: "evaluate_all w (length (h ! a0)) h pop = Inr fitness" and
    mn: "py_min fitness = Inr m" and
    n: "n = length (h ! a0)" and
    st0: "st0 = \<lparr>heap = h, population = pop, best_solution = pop ! idx, best_fitness = m,
                 convergence = [m], rng_pos = p, stdout = []\<rparr>"
    by (auto simp: initial_state_def Let_def split: sum.splits)
  note ev = evaluate_all_props [OF fs]
  have j: "j < length pop" using props assms(2) by simp
  then have "fitness_of w n h (pop ! j) = Inr (fitness ! j)" using ev n by simp
  then have "f = fitness ! j" using assms(3) by (simp add: st0)
  moreover have "m \<le> fitness ! j" using py_min_le [OF mn] j ev by simp
  ultimately show ?thesis by (simp add: st0)
qed

lemma generation_best_le:
  assumes ok: "heap_ok P n st" and n: "length bounds = n"
    and step: "generation_step rs bounds w P n g st = Inr st'"
    and j: "j < P" and f: "fitness_of w n (heap st') (population st' ! j) = Inr f"
  shows "best_fitness st' \<le> f"
proof -
  from generation_step_cases [OF step] obtain st1 fitness current_best idx where
    s1: "pollinate_all rs bounds P [0..<P] st = Inr st1" and
    fs: "evaluate_all w n (heap st1) (population st1) = Inr fitness" and
    cb: "py_min fitness = Inr current_best" and
    upd: "if current_best < best_fitness st1
            then np_argmin fitness = Inr idx \<and>
                 st' = record_generation g
                         (st1\<lparr>best_fitness := current_best, best_solution := population st1 ! idx\<rparr>)
            else st' = record_generation g st1"
    by blast
  have "heap_ok P n st1" using pollinate_all_props [OF ok _ n s1] by simp
  then have len: "length (population st1) = P" by (simp add: heap_ok_def)
  note ev = evaluate_all_props [OF fs]
  have heap': "heap st' = heap st1" and pop': "population st' = population st1"
    using upd by (auto simp: record_generation_def split: if_splits)
  have "fitness_of w n (heap st1) (population st1 ! j) = Inr (fitness ! j)"
    using ev j len by simp
  then have fj: "f = fitness ! j" using f heap' pop' by simp
  have le: "current_best \<le> fitness ! j" using py_min_le [OF cb] j len ev by simp
  show ?thesis
    using upd le fj by (auto simp: record_generation_def split: if_splits)
qed

lemma state_after_best_le:
  assumes "state_after rs g population_size bounds w = Inr s" "j < nat population_size"
    "fitness_of w (length bounds) (heap s) (population s ! j) = Inr f"
  shows "best_fitness s \<le> f"
proof (cases g)
  case 0
  then obtain n where init: "initial_state rs bounds w population_size = Inr (n, s)"
    using assms(1) by (auto simp: state_after_def split: sum.splits)
  have "n = length bounds" using initial_state_props(1) [OF init] .
  then show ?thesis using initial_best_le [OF init assms(2)] assms(3) by simp
next
  case (Suc k)
  then obtain s1 where s1: "state_after rs k population_size bounds w = Inr s1"
    and step: "generation_step rs bounds w (nat population_size) (length bounds) k s1 = Inr s"
    using assms(1) by (auto simp: state_after_Suc split: sum.splits)
  have ok: "heap_ok (nat population_size) (length bounds) s1"
    using state_after_ok [OF s1] by simp
  show ?thesis using generation_best_le [OF ok refl step assms(2,3)] .
qed

lemma state_after_best_antitone:
  assumes "state_after rs G population_size bounds w = Inr stG" "g \<le> G"
    "state_after rs g population_size bounds w = Inr s"
  shows "best_fitness stG \<le> best_fitness s"
proof -
  from state_after_prefix [OF assms(1,2)] assms(3)
  have c: "convergence s = take (Suc g) (convergence stG)" by simp
  have "convergence s \<noteq> []" "last (convergence s) = best_fitness s"
    using state_after_ok [OF assms(3)] by auto
  then have "best_fitness s \<in> set (convergence s)" by (metis last_in_set)
  then have "best_fitness s \<in> set (convergence stG)" unfolding c by (rule in_set_takeD)
  then show ?thesis using state_after_ok [OF assms(1)] by simp
qed

lemma example_state_1:
  "state_after example_draws 1 2 example_bounds example_workload = Inr example_st1"
  by code_simp

lemma example_pollinate:
  "pollinate example_draws example_bounds 2 0 example_st0 = Inr example_st_mid"
  by code_simp

lemma example_step:
  "generation_step example_draws example_bounds example_workload 2 2 0 example_st0 =
     Inr example_st1"
  by code_simp

lemma example_heap_ok: "heap_ok 2 2 example_st0"
  by (simp add: heap_ok_def example_st0_def)

lemma example_run:
  "flower_pollination_algorithm example_draws 1 2 example_bounds example_workload = Inr
     \<lparr>returned = PyTuple [PyArray [1, 1 / 10], PyFloat 1130], plotted = [18135 / 16, 1130],
      printed = [(1, 1130)]\<rparr>"
  by code_simp

lemma example_run_empty_bounds:
  "flower_pollination_algorithm example_draws 1 2 [] example_workload = Inr
     \<lparr>returned = PyTuple [PyArray [], PyFloat 1130], plotted = [1130, 1130],
      printed = [(1, 1130)]\<rparr>"
  by code_simp

lemma example_run_inverted_bounds:
  "flower_pollination_algorithm example_draws 1 2 [(1, 0), (0, 1)] example_workload = Inr
     \<lparr>returned = PyTuple [PyArray [3 / 4, 9 / 10], PyFloat (18179 / 16)],
      plotted = [18179 / 16, 18179 / 16], printed = [(1, 18179 / 16)]\<rparr>"
  by code_simp

lemma example_workload_finite: "finite_workload example_workload"
  by (simp add: finite_workload_def example_workload_def)

lemma example_draws_agree: "agree_upto 10 example_draws other_draws"
  by (simp add: agree_upto_def example_draws_def other_draws_def)

section \<open>The claims about calculate\_energy\_total\<close>

text \<open>
  Claim C2, as amended. The claim asks for a non-negative result whenever all numeric
  inputs are non-negative. That fails for an association entry above 1, where the factor
  \<open>1 - A_t[t-1]\<close> is negative. With a non-negative workload, positive capacities and all
  entries of the candidate and of the migration context in the interval from 0 to 1,
  every value the evaluator returns is non-negative, and the only way it returns no
  value is a shape exception.
\<close>

theorem energy_nonneg_on_unit_entries:
  assumes w: "nonneg_workload w" and A: "unit_entries A_t" and B: "unit_entries B_t"
  shows "(\<forall>e. calculate_energy_total A_t B_t S_t w = Inr e \<longrightarrow> 0 \<le> e) \<and>
         calculate_energy_total A_t B_t S_t w \<noteq> Inl NonFinite"
proof -
  obtain pe where pe: "E_processing_epm w = Inr pe" "0 \<le> pe"
    using w processing_energy_nonneg [of "L_epm w" "P_epm w" "P_prime_epm w" "C_epm w" "T w"]
    unfolding nonneg_workload_def E_processing_epm_def by blast
  obtain pc where pc: "E_processing_cpm w = Inr pc" "0 \<le> pc"
    using w processing_energy_nonneg [of "L_cpm w" "P_cpm w" "P_prime_cpm w" "C_cpm w" "T w"]
    unfolding nonneg_workload_def E_processing_cpm_def by blast
  have me: "0 \<le> m" if "migration_epm A_t w = Inr m" for m
  proof (cases "length (as_matrix A_t) > 1")
    case True
    then have "migration_sum (as_matrix A_t) (V_du w) (alpha w) (beta w) = Inr m"
      using that by (simp add: migration_epm_def)
    then show ?thesis
      using migration_sum_nonneg [of "as_matrix A_t" "V_du w" "alpha w" "beta w" m] w A
      unfolding nonneg_workload_def unit_entries_def by blast
  next
    case False
    then show ?thesis using that by (simp add: migration_epm_def)
  qed
  have mc: "0 \<le> m" if "migration_cpm B_t w = Inr m" for m
  proof (cases B_t)
    case (Arr1 xs)
    then show ?thesis using that by (simp split: if_splits)
  next
    case (Arr2 M)
    show ?thesis
    proof (cases "length M > 1")
      case True
      then have "migration_sum M (take (ncols M) (V_cu w)) (alpha w) (beta w) = Inr m"
        using that Arr2 by simp
      moreover have "\<forall>v\<in>set (take (ncols M) (V_cu w)). 0 \<le> v"
        using w unfolding nonneg_workload_def by (meson in_set_takeD)
      ultimately show ?thesis
        using migration_sum_nonneg [of M "take (ncols M) (V_cu w)" "alpha w" "beta w" m] w B Arr2
        unfolding nonneg_workload_def unit_entries_def by auto
    next
      case False
      then show ?thesis using that Arr2 by simp
    qed
  qed
  have "0 \<le> e" if "calculate_energy_total A_t B_t S_t w = Inr e" for e
  proof -
    from that obtain m1 m2 where "migration_epm A_t w = Inr m1" "migration_cpm B_t w = Inr m2"
      and "e = pe + pc + m1 + m2"
      by (auto simp: calculate_energy_total_def pe pc split: sum.splits)
    then show ?thesis using pe(2) pc(2) me mc by fastforce
  qed
  moreover have "calculate_energy_total A_t B_t S_t w \<noteq> Inl NonFinite"
  proof -
    have nf: "migration_sum M V a b \<noteq> Inl NonFinite" for M V a b
      by (simp add: migration_sum_def broadcast_mul_def)
    have "migration_epm A_t w \<noteq> Inl NonFinite"
      using nf by (simp add: migration_epm_def Let_def)
    moreover have "migration_cpm B_t w \<noteq> Inl NonFinite"
      using nf by (cases B_t) simp_all
    ultimately show ?thesis
      by (auto simp: calculate_energy_total_def pe pc split: sum.splits)
  qed
  ultimately show ?thesis by blast
qed

theorem energy_nonneg_on_unit_entries_witness:
  "nonneg_workload example_workload \<and> unit_entries (Arr1 [0, 1, 0, 1]) \<and>
   unit_entries (Arr2 (replicate 4 [0])) \<and>
   calculate_energy_total (Arr1 [0, 1, 0, 1]) (Arr2 (replicate 4 [0])) (Arr2 (replicate 4 [1]))
     example_workload = Inr 1185 \<and> (0::real) \<le> 1185 \<and>
   calculate_energy_total (Arr1 [0, 1, 0, 1]) (Arr2 (replicate 4 [0])) (Arr2 (replicate 4 [1]))
     example_workload \<noteq> Inl NonFinite"
proof -
  have w: "nonneg_workload example_workload"
    by (simp add: nonneg_workload_def example_workload_def)
  have A: "unit_entries (Arr1 [0, 1, 0, 1])"
    by (simp add: unit_entries_def)
  have B: "unit_entries (Arr2 (replicate 4 [0]))"
    by (simp add: unit_entries_def)
  have v: "calculate_energy_total (Arr1 [0, 1, 0, 1]) (Arr2 (replicate 4 [0]))
             (Arr2 (replicate 4 [1])) example_workload = Inr 1185"
    by (simp add: calculate_energy_total_def E_processing_epm_def E_processing_cpm_def
        processing_energy_def migration_epm_def migration_cpm_zero_column migration_sum_def
        broadcast_mul_def transitions_def np_sum2_def example_workload_def
        del: migration_cpm.simps)
  show ?thesis
    using w A B v energy_nonneg_on_unit_entries [OF w A B] by blast
qed

text \<open>
  Claim C2, as stated, fails: with the workload of the source's example (every number
  non-negative, capacities positive) and the non-negative candidate \<open>[100, 1]\<close> the
  evaluator returns \<open>1130 - 99 * 27.5 = -1592.5\<close>.
\<close>

theorem energy_negative_counterexample:
  "calculate_energy_total (Arr1 [100, 1]) (Arr2 [[0], [0]]) (Arr2 [[1], [1]]) example_workload
     = Inr (- (3185 / 2))"
  by (simp add: calculate_energy_total_def E_processing_epm_def E_processing_cpm_def
      processing_energy_def migration_epm_def migration_sum_def broadcast_mul_def
      transitions_def np_sum2_def example_workload_def)

text \<open>
  Claim C6. For the two-row candidate \<open>[0, 1]\<close>, with \<open>alpha = 0.5\<close>, \<open>beta = 10\<close> and the
  class-E migration volume 5, the class-E migration term is \<open>(1 - 0) * 1 * (0.5 * 5 + 10)
  = 12.5\<close>; for \<open>[1, 1]\<close> it is 0. The candidate may come as a vector or as a column.
\<close>

theorem migration_term_activation:
  "migration_epm (Arr1 [0, 1]) (w\<lparr>V_du := [5], alpha := 1 / 2, beta := 10\<rparr>) = Inr (25 / 2) \<and>
   migration_epm (Arr1 [1, 1]) (w\<lparr>V_du := [5], alpha := 1 / 2, beta := 10\<rparr>) = Inr 0 \<and>
   migration_epm (Arr2 [[0], [1]]) (w\<lparr>V_du := [5], alpha := 1 / 2, beta := 10\<rparr>) = Inr (25 / 2) \<and>
   migration_epm (Arr2 [[1], [1]]) (w\<lparr>V_du := [5], alpha := 1 / 2, beta := 10\<rparr>) = Inr 0"
  by (simp add: migration_epm_def migration_sum_def broadcast_mul_def transitions_def np_sum2_def)




text \<open>
  Claim C10. \<open>S_t\<close> is a parameter that the body never reads: any two values of it give
  the same result, a value or a failure alike.
\<close>

theorem energy_ignores_S_t:
  "calculate_energy_total A_t B_t S_t w = calculate_energy_total A_t B_t S_t' w"
  by (simp add: calculate_energy_total_def)

section \<open>The claims about flower\_pollination\_algorithm\<close>

text \<open>
  Claim C1, as amended. With at least two individuals (or one individual and no
  generation to run), a non-negative number of generations and a workload that divides
  no load by zero, the call ends after exactly \<open>max_generations\<close> generation steps
  (its printed lines are numbered 1 to \<open>max_generations\<close>) and returns the pair of the
  best candidate and the best fitness of the final state: the array the best reference
  points to and the tracked best fitness. That array evaluates to that fitness, which is
  the last and the least entry of the history and is at most the fitness of every
  individual at the end of every generation and of the initial population. The
  convergence history is not part of the returned value: it goes to the plot. It has
  \<open>max_generations + 1\<close> entries, and it only grows: after \<open>g\<close> generations it is the
  first \<open>g + 1\<close> entries of the final history.
\<close>

theorem fpa_returns_pair_after_all_generations:
  assumes "2 \<le> population_size \<or> (population_size = 1 \<and> max_generations = 0)"
    "0 \<le> max_generations" "finite_workload w"
  shows "\<exists>st.
           state_after rs (nat max_generations) population_size bounds w = Inr st \<and>
           flower_pollination_algorithm rs max_generations population_size bounds w =
             Inr \<lparr>returned = PyTuple [PyArray (heap st ! best_solution st), PyFloat (best_fitness st)],
                  plotted = convergence st, printed = stdout st\<rparr> \<and>
           fitness_of w (length bounds) (heap st) (best_solution st) = Inr (best_fitness st) \<and>
           best_fitness st = last (convergence st) \<and>
           best_fitness st = Min (set (convergence st)) \<and>
           int (length (convergence st)) = max_generations + 1 \<and>
           map fst (stdout st) = [1..<nat max_generations + 1] \<and>
           (\<forall>g\<le>nat max_generations. \<exists>s.
              state_after rs g population_size bounds w = Inr s \<and>
              convergence s = take (Suc g) (convergence st) \<and>
              (\<forall>j<nat population_size. \<forall>f.
                 fitness_of w (length bounds) (heap s) (population s ! j) = Inr f \<longrightarrow>
                 best_fitness st \<le> f))"
proof -
  have "2 \<le> population_size \<or> (1 \<le> population_size \<and> max_generations \<le> 0)"
    using assms(1) by auto
  from fpa_total [OF this assms(3)] obtain st where
    st: "state_after rs (nat max_generations) population_size bounds w = Inr st" and
    out: "flower_pollination_algorithm rs max_generations population_size bounds w =
             Inr \<lparr>returned = PyTuple [PyArray (heap st ! best_solution st), PyFloat (best_fitness st)],
                  plotted = convergence st, printed = stdout st\<rparr>"
    by blast
  note ok = state_after_ok [OF st]
  have cons: "fitness_of w (length bounds) (heap st) (best_solution st) = Inr (best_fitness st)"
    using ok by (simp add: best_consistent_def)
  have lst: "best_fitness st = last (convergence st)" using ok by simp
  have ne: "convergence st \<noteq> []" using ok by auto
  then have "best_fitness st \<in> set (convergence st)" using lst by simp
  moreover have "\<forall>x\<in>set (convergence st). best_fitness st \<le> x" using ok by simp
  ultimately have mn: "best_fitness st = Min (set (convergence st))"
    by (intro Min_eqI [symmetric]) auto
  have len: "int (length (convergence st)) = max_generations + 1"
    using ok assms(2) by simp
  have log: "map fst (stdout st) = [1..<nat max_generations + 1]"
    using ok by simp
  have gens: "\<exists>s. state_after rs g population_size bounds w = Inr s \<and>
              convergence s = take (Suc g) (convergence st) \<and>
              (\<forall>j<nat population_size. \<forall>f.
                 fitness_of w (length bounds) (heap s) (population s ! j) = Inr f \<longrightarrow>
                 best_fitness st \<le> f)"
    if g: "g \<le> nat max_generations" for g
  proof -
    from state_after_prefix [OF st g] obtain s where
      s: "state_after rs g population_size bounds w = Inr s" and
      c: "convergence s = take (Suc g) (convergence st)" by blast
    have le: "best_fitness st \<le> best_fitness s"
      using state_after_best_antitone [OF st g s] .
    have "best_fitness st \<le> f"
      if "j < nat population_size"
        "fitness_of w (length bounds) (heap s) (population s ! j) = Inr f" for j f
      using state_after_best_le [OF s that] le by simp
    then show ?thesis using s c by blast
  qed
  show ?thesis
    using st out cons lst mn len log gens by blast
qed

theorem fpa_returns_pair_after_all_generations_witness:
  "((2::int) \<le> 2 \<or> (2::int) = 1 \<and> (1::int) = 0) \<and> (0::int) \<le> 1 \<and>
   finite_workload example_workload \<and>
   flower_pollination_algorithm example_draws 1 2 example_bounds example_workload =
     Inr \<lparr>returned = PyTuple [PyArray [1, 1 / 10], PyFloat 1130], plotted = [18135 / 16, 1130],
          printed = [(1, 1130)]\<rparr> \<and>
   (\<exists>st.
      state_after example_draws (nat 1) 2 example_bounds example_workload = Inr st \<and>
      flower_pollination_algorithm example_draws 1 2 example_bounds example_workload =
        Inr \<lparr>returned = PyTuple [PyArray (heap st ! best_solution st), PyFloat (best_fitness st)],
             plotted = convergence st, printed = stdout st\<rparr> \<and>
      fitness_of example_workload (length example_bounds) (heap st) (best_solution st) =
        Inr (best_fitness st) \<and>
      best_fitness st = last (convergence st) \<and>
      best_fitness st = Min (set (convergence st)) \<and>
      int (length (convergence st)) = 1 + 1 \<and>
      map fst (stdout st) = [1..<nat 1 + 1] \<and>
      (\<forall>g\<le>nat 1. \<exists>s.
         state_after example_draws g 2 example_bounds example_workload = Inr s \<and>
         convergence s = take (Suc g) (convergence st) \<and>
         (\<forall>j<nat 2. \<forall>f.
            fitness_of example_workload (length example_bounds) (heap s) (population s ! j) = Inr f \<longrightarrow>
            best_fitness st \<le> f)))"
  using fpa_returns_pair_after_all_generations
    [of 2 1 example_workload example_draws example_bounds]
    example_workload_finite example_run
  by simp

text \<open>
  Claim C1, as stated, fails: the value returned is the pair of the candidate and its
  fitness, not the triple that ends with the history; the history \<open>[1133.4375, 1130]\<close>
  of this run is handed to the plot only.
\<close>

theorem fpa_returns_pair_counterexample:
  "flower_pollination_algorithm example_draws 1 2 example_bounds example_workload =
     Inr \<lparr>returned = PyTuple [PyArray [1, 1 / 10], PyFloat 1130], plotted = [18135 / 16, 1130],
          printed = [(1, 1130)]\<rparr> \<and>
   PyTuple [PyArray [1, 1 / 10], PyFloat 1130] \<noteq>
     PyTuple [PyArray [1, 1 / 10], PyFloat 1130, PyList [PyFloat (18135 / 16), PyFloat 1130]]"
  using example_run by simp


text \<open>
  Claim C3. In every state a run reaches, and so in the history a call hands over, each
  entry of \<open>convergence\<close> is at most the entry before it. A generation step replaces the
  best fitness exactly when the least fitness of the generation is strictly lower than
  it, by that least fitness and the first individual that has it; otherwise the best
  fitness and the best reference stay as they were. Either way the step appends the
  best fitness to the history.
\<close>

theorem convergence_non_increasing:
  "(state_after rs g population_size bounds w = Inr st \<longrightarrow>
      sorted_wrt (\<lambda>a b. b \<le> a) (convergence st) \<and>
      (\<forall>i. Suc i < length (convergence st) \<longrightarrow> convergence st ! Suc i \<le> convergence st ! i)) \<and>
   (2 \<le> population_size \<and> finite_workload w \<longrightarrow>
      (\<exists>out. flower_pollination_algorithm rs max_generations population_size bounds w = Inr out \<and>
         (\<forall>i. Suc i < length (plotted out) \<longrightarrow> plotted out ! Suc i \<le> plotted out ! i))) \<and>
   (generation_step rs bounds w P n generation s = Inr s' \<longrightarrow>
      (\<exists>s1 fitness.
         pollinate_all rs bounds P [0..<P] s = Inr s1 \<and>
         evaluate_all w n (heap s1) (population s1) = Inr fitness \<and> fitness \<noteq> [] \<and>
         (if Min (set fitness) < best_fitness s
          then best_fitness s' = Min (set fitness) \<and>
               (\<exists>idx<length fitness. fitness ! idx = Min (set fitness) \<and>
                  best_solution s' = population s1 ! idx)
          else best_fitness s' = best_fitness s \<and> best_solution s' = best_solution s) \<and>
         convergence s' = convergence s @ [best_fitness s']))"
proof (intro conjI impI)
  assume st: "state_after rs g population_size bounds w = Inr st"
  show "sorted_wrt (\<lambda>a b. b \<le> a) (convergence st)"
    using state_after_ok [OF st] by simp
  then show "\<forall>i. Suc i < length (convergence st) \<longrightarrow> convergence st ! Suc i \<le> convergence st ! i"
    by (auto dest: sorted_wrt_nth_less [where i = i and j = "Suc i" for i])
next
  assume "2 \<le> population_size \<and> finite_workload w"
  then obtain st where
    st: "state_after rs (nat max_generations) population_size bounds w = Inr st" and
    out: "flower_pollination_algorithm rs max_generations population_size bounds w =
             Inr \<lparr>returned = PyTuple [PyArray (heap st ! best_solution st), PyFloat (best_fitness st)],
                  plotted = convergence st, printed = stdout st\<rparr>"
    using fpa_total [of population_size max_generations w rs bounds] by blast
  have "sorted_wrt (\<lambda>a b. b \<le> a) (convergence st)"
    using state_after_ok [OF st] by simp
  then have "\<forall>i. Suc i < length (convergence st) \<longrightarrow> convergence st ! Suc i \<le> convergence st ! i"
    by (auto dest: sorted_wrt_nth_less [where i = i and j = "Suc i" for i])
  then show "\<exists>out. flower_pollination_algorithm rs max_generations population_size bounds w = Inr out \<and>
         (\<forall>i. Suc i < length (plotted out) \<longrightarrow> plotted out ! Suc i \<le> plotted out ! i)"
    using out by simp
next
  assume step: "generation_step rs bounds w P n generation s = Inr s'"
  from generation_step_cases [OF step] obtain s1 fitness current_best idx where
    s1: "pollinate_all rs bounds P [0..<P] s = Inr s1" and
    fs: "evaluate_all w n (heap s1) (population s1) = Inr fitness" and
    cb: "py_min fitness = Inr current_best" and
    upd: "if current_best < best_fitness s1
            then np_argmin fitness = Inr idx \<and>
                 s' = record_generation generation
                         (s1\<lparr>best_fitness := current_best, best_solution := population s1 ! idx\<rparr>)
            else s' = record_generation generation s1"
    by blast
  have keep: "best_fitness s1 = best_fitness s" "best_solution s1 = best_solution s"
    "convergence s1 = convergence s"
    using pollinate_all_keeps [OF s1] by simp_all
  have mn: "current_best = Min (set fitness)" using py_min_Min [OF cb] .
  have ne: "fitness \<noteq> []" using cb by auto
  have "if Min (set fitness) < best_fitness s
          then best_fitness s' = Min (set fitness) \<and>
               (\<exists>idx<length fitness. fitness ! idx = Min (set fitness) \<and>
                  best_solution s' = population s1 ! idx)
          else best_fitness s' = best_fitness s \<and> best_solution s' = best_solution s"
  proof (cases "current_best < best_fitness s1")
    case True
    then have am: "np_argmin fitness = Inr idx" and
      s': "s' = record_generation generation
                  (s1\<lparr>best_fitness := current_best, best_solution := population s1 ! idx\<rparr>)"
      using upd by simp_all
    have "idx < length fitness" "fitness ! idx = current_best"
      using np_argmin_props [OF am] cb by simp_all
    then show ?thesis
      using True keep mn by (auto simp: s' record_generation_def)
  next
    case False
    then have "s' = record_generation generation s1" using upd by simp
    then show ?thesis using False keep mn by (simp add: record_generation_def)
  qed
  moreover have "convergence s' = convergence s @ [best_fitness s']"
    using upd keep by (auto simp: record_generation_def split: if_splits)
  ultimately show "\<exists>s1 fitness.
         pollinate_all rs bounds P [0..<P] s = Inr s1 \<and>
         evaluate_all w n (heap s1) (population s1) = Inr fitness \<and> fitness \<noteq> [] \<and>
         (if Min (set fitness) < best_fitness s
          then best_fitness s' = Min (set fitness) \<and>
               (\<exists>idx<length fitness. fitness ! idx = Min (set fitness) \<and>
                  best_solution s' = population s1 ! idx)
          else best_fitness s' = best_fitness s \<and> best_solution s' = best_solution s) \<and>
         convergence s' = convergence s @ [best_fitness s']"
    using s1 fs ne by blast
qed


theorem convergence_non_increasing_witness:
  "state_after example_draws 1 2 example_bounds example_workload = Inr example_st1 \<and>
   sorted_wrt (\<lambda>a b. b \<le> a) (convergence example_st1) \<and>
   convergence example_st1 = [18135 / 16, 1130] \<and>
   (2::int) \<le> 2 \<and> finite_workload example_workload \<and>
   (\<exists>out. flower_pollination_algorithm example_draws 1 2 example_bounds example_workload = Inr out \<and>
      (\<forall>i. Suc i < length (plotted out) \<longrightarrow> plotted out ! Suc i \<le> plotted out ! i)) \<and>
   generation_step example_draws example_bounds example_workload 2 2 0 example_st0 =
     Inr example_st1 \<and>
   (\<exists>s1 fitness.
      pollinate_all example_draws example_bounds 2 [0..<2] example_st0 = Inr s1 \<and>
      evaluate_all example_workload 2 (heap s1) (population s1) = Inr fitness \<and> fitness \<noteq> [] \<and>
      (if Min (set fitness) < best_fitness example_st0
       then best_fitness example_st1 = Min (set fitness) \<and>
            (\<exists>idx<length fitness. fitness ! idx = Min (set fitness) \<and>
               best_solution example_st1 = population s1 ! idx)
       else best_fitness example_st1 = best_fitness example_st0 \<and>
            best_solution example_st1 = best_solution example_st0) \<and>
      convergence example_st1 = convergence example_st0 @ [best_fitness example_st1])"
proof -
  have c: "convergence example_st1 = [18135 / 16, 1130]"
    by (simp add: example_st1_def)
  show ?thesis
    using convergence_non_increasing
      [where rs = example_draws and g = 1 and population_size = 2 and bounds = example_bounds
         and w = example_workload and st = example_st1 and max_generations = 1 and P = 2
         and n = 2 and generation = 0 and s = example_st0 and s' = example_st1]
      example_state_1 example_step example_workload_finite c
    by simp
qed




text \<open>
  Claim C5, as amended. The bounds are never validated. For every list of bounds, the
  empty one and those with \<open>low > high\<close> in some pair included, a call with at least two
  individuals and a workload that divides no load by zero is not rejected: it builds the
  population, runs all its generations and returns. Every individual has one entry per
  pair of bounds; after a generation an entry whose pair has \<open>low > high\<close> holds \<open>high\<close>.
\<close>

theorem bounds_are_not_validated:
  assumes "2 \<le> population_size" "finite_workload w"
  shows "\<exists>st. state_after rs (nat max_generations) population_size bounds w = Inr st \<and>
           flower_pollination_algorithm rs max_generations population_size bounds w =
             Inr \<lparr>returned = PyTuple [PyArray (heap st ! best_solution st), PyFloat (best_fitness st)],
                  plotted = convergence st, printed = stdout st\<rparr> \<and>
           length (population st) = nat population_size \<and>
           length (convergence st) = nat max_generations + 1 \<and>
           (\<forall>j<nat population_size.
              length (heap st ! (population st ! j)) = length bounds \<and>
              (0 < max_generations \<longrightarrow>
                 (\<forall>d<length bounds. snd (bounds ! d) < fst (bounds ! d) \<longrightarrow>
                    heap st ! (population st ! j) ! d = snd (bounds ! d))))"
proof -
  from fpa_total [OF disjI1 [OF assms(1)] assms(2)] obtain st where
    st: "state_after rs (nat max_generations) population_size bounds w = Inr st" and
    out: "flower_pollination_algorithm rs max_generations population_size bounds w =
             Inr \<lparr>returned = PyTuple [PyArray (heap st ! best_solution st), PyFloat (best_fitness st)],
                  plotted = convergence st, printed = stdout st\<rparr>"
    by blast
  note ok = state_after_ok [OF st]
  then have hk: "heap_ok (nat population_size) (length bounds) st" by simp
  have len: "length (heap st ! (population st ! j)) = length bounds" if "j < nat population_size" for j
  proof -
    have "population st ! j \<in> set (population st)" using hk that by (simp add: heap_ok_def)
    then show ?thesis using hk by (simp add: heap_ok_def)
  qed
  have high: "heap st ! (population st ! j) ! d = snd (bounds ! d)"
    if j: "j < nat population_size" and mg: "0 < max_generations" and d: "d < length bounds"
      and inv: "snd (bounds ! d) < fst (bounds ! d)" for j d
  proof -
    obtain g where g: "nat max_generations = Suc g"
      using mg by (cases "nat max_generations") auto
    let ?Q = "\<lambda>v. \<forall>d<length bounds. snd (bounds ! d) < fst (bounds ! d) \<longrightarrow> v ! d = snd (bounds ! d)"
    have "?Q (np_clip z (map fst bounds) (map snd bounds))" if "length z = length bounds" for z
      using that by (simp add: np_clip_nth)
    then have "?Q (heap st ! (population st ! j))"
      using state_after_clipped [of rs g population_size bounds w st ?Q j] st g j by simp
    then show ?thesis using d inv by blast
  qed
  show ?thesis
    using st out hk ok len high by (intro exI [of _ st]) (simp add: heap_ok_def)
qed

theorem bounds_are_not_validated_witness:
  "(2::int) \<le> 2 \<and> finite_workload example_workload \<and>
   (\<exists>st. state_after example_draws (nat 1) 2 [(1, 0), (0, 1)] example_workload = Inr st \<and>
      flower_pollination_algorithm example_draws 1 2 [(1, 0), (0, 1)] example_workload =
        Inr \<lparr>returned = PyTuple [PyArray (heap st ! best_solution st), PyFloat (best_fitness st)],
             plotted = convergence st, printed = stdout st\<rparr> \<and>
      length (population st) = nat 2 \<and>
      length (convergence st) = nat 1 + 1 \<and>
      (\<forall>j<nat 2.
         length (heap st ! (population st ! j)) = length [(1::real, 0::real), (0, 1)] \<and>
         (0 < (1::int) \<longrightarrow>
            (\<forall>d<length [(1::real, 0::real), (0, 1)].
               snd ([(1::real, 0::real), (0, 1)] ! d) < fst ([(1::real, 0::real), (0, 1)] ! d) \<longrightarrow>
               heap st ! (population st ! j) ! d = snd ([(1::real, 0::real), (0, 1)] ! d)))))"
  using bounds_are_not_validated
    [of 2 example_workload example_draws 1 "[(1, 0), (0, 1)]"] example_workload_finite
  by simp

text \<open>
  Claim C5, as stated, fails: a call with an empty list of bounds and a call with
  \<open>low = 1 > high = 0\<close> in the first pair both run their generation and return.
\<close>

theorem invalid_bounds_accepted_counterexample:
  "flower_pollination_algorithm example_draws 1 2 [] example_workload = Inr
     \<lparr>returned = PyTuple [PyArray [], PyFloat 1130], plotted = [1130, 1130],
      printed = [(1, 1130)]\<rparr> \<and>
   flower_pollination_algorithm example_draws 1 2 [(1, 0), (0, 1)] example_workload = Inr
     \<lparr>returned = PyTuple [PyArray [3 / 4, 9 / 10], PyFloat (18179 / 16)],
      plotted = [18179 / 16, 18179 / 16], printed = [(1, 18179 / 16)]\<rparr>"
  using example_run_empty_bounds example_run_inverted_bounds by simp

text \<open>
  Claim C7. The call reads its random source at no more than
  \<open>population_size * len(bounds) + 3 * population_size * max_generations\<close> positions:
  two runs with the same arguments whose sources yield the same draws at these
  positions end alike, in the value returned, the history and the lines printed, or in
  the same failure.
\<close>

theorem fpa_deterministic_in_draws:
  assumes "agree_upto (nat population_size * length bounds +
                       3 * nat population_size * nat max_generations) rs rs'"
  shows "flower_pollination_algorithm rs max_generations population_size bounds w =
         flower_pollination_algorithm rs' max_generations population_size bounds w"
  using state_after_agree [OF assms]
  by (simp add: flower_pollination_algorithm_def)

theorem fpa_deterministic_in_draws_witness:
  "agree_upto (nat 2 * length example_bounds + 3 * nat 2 * nat 1) example_draws other_draws \<and>
   random_at example_draws 10 \<noteq> random_at other_draws 10 \<and>
   flower_pollination_algorithm example_draws 1 2 example_bounds example_workload =
   flower_pollination_algorithm other_draws 1 2 example_bounds example_workload"
proof -
  have a: "agree_upto (nat 2 * length example_bounds + 3 * nat 2 * nat 1) example_draws other_draws"
    using example_draws_agree by (simp add: example_bounds_def)
  have d: "random_at example_draws 10 \<noteq> random_at other_draws 10"
    by (simp add: example_draws_def other_draws_def)
  show ?thesis
    using a d fpa_deterministic_in_draws [OF a, of example_workload] by simp
qed

text \<open>
  Claim C9. The array a call returns evaluates, with the \<open>B_t\<close> and \<open>S_t\<close> of the run and
  the same workload, to the fitness it returns. A pollination step changes no array of
  the store: the slot it rebinds refers to an array created by the step, and the best
  reference, which stays as it was, refers to an array that was there before.
\<close>

theorem returned_best_is_consistent:
  "(flower_pollination_algorithm rs max_generations population_size bounds w = Inr out \<longrightarrow>
      (\<exists>best f. returned out = PyTuple [PyArray best, PyFloat f] \<and>
         calculate_energy_total (Arr1 best) (Arr2 (replicate (length bounds) [0]))
           (Arr2 (replicate (length bounds) [1])) w = Inr f)) \<and>
   (2 \<le> population_size \<and> finite_workload w \<longrightarrow>
      (\<exists>out'. flower_pollination_algorithm rs max_generations population_size bounds w = Inr out')) \<and>
   (heap_ok P (length bounds) s \<and> i < P \<and> pollinate rs bounds P i s = Inr s' \<longrightarrow>
      (\<forall>a<length (heap s). heap s' ! a = heap s ! a) \<and>
      length (heap s) \<le> population s' ! i \<and>
      best_solution s' = best_solution s \<and> best_solution s' < length (heap s))"
proof (intro conjI impI)
  assume "flower_pollination_algorithm rs max_generations population_size bounds w = Inr out"
  from fpa_cases [OF this] obtain st where
    st: "state_after rs (nat max_generations) population_size bounds w = Inr st" and
    out: "out = \<lparr>returned = PyTuple [PyArray (heap st ! best_solution st), PyFloat (best_fitness st)],
                  plotted = convergence st, printed = stdout st\<rparr>"
    by blast
  have "best_consistent w (length bounds) st" using state_after_ok [OF st] by simp
  then show "\<exists>best f. returned out = PyTuple [PyArray best, PyFloat f] \<and>
         calculate_energy_total (Arr1 best) (Arr2 (replicate (length bounds) [0]))
           (Arr2 (replicate (length bounds) [1])) w = Inr f"
    by (simp add: out best_consistent_def fitness_of_def)
next
  assume "2 \<le> population_size \<and> finite_workload w"
  then show "\<exists>out'. flower_pollination_algorithm rs max_generations population_size bounds w = Inr out'"
    using fpa_total by blast
next
  assume a: "heap_ok P (length bounds) s \<and> i < P \<and> pollinate rs bounds P i s = Inr s'"
  then have ok: "heap_ok P (length bounds) s" and i: "i < P"
    and run: "pollinate rs bounds P i s = Inr s'" by simp_all
  from pollinate_cases [OF ok i run] obtain c x y q where
    s': "s' = s\<lparr>rng_pos := rng_pos s + q,
                    heap := heap s @
                      [map2 (-) (heap s ! x) (heap s ! y),
                       map ((*) c) (map2 (-) (heap s ! x) (heap s ! y)),
                       proposal c (heap s ! x) (heap s ! y) (heap s ! (population s ! i)),
                       np_clip (proposal c (heap s ! x) (heap s ! y) (heap s ! (population s ! i)))
                         (map fst bounds) (map snd bounds)],
                    population := (population s)[i := length (heap s) + 3]\<rparr>"
    by blast
  have len: "length (population s) = P" using ok by (simp add: heap_ok_def)
  show "\<forall>a<length (heap s). heap s' ! a = heap s ! a" by (simp add: s' nth_append)
  show "length (heap s) \<le> population s' ! i" using i len by (simp add: s')
  show "best_solution s' = best_solution s" by (simp add: s')
  show "best_solution s' < length (heap s)" using ok by (simp add: s' heap_ok_def)
qed

theorem returned_best_is_consistent_witness:
  "flower_pollination_algorithm example_draws 1 2 example_bounds example_workload =
     Inr \<lparr>returned = PyTuple [PyArray [1, 1 / 10], PyFloat 1130], plotted = [18135 / 16, 1130],
          printed = [(1, 1130)]\<rparr> \<and>
   calculate_energy_total (Arr1 [1, 1 / 10]) (Arr2 (replicate (length example_bounds) [0]))
     (Arr2 (replicate (length example_bounds) [1])) example_workload = Inr 1130 \<and>
   (2::int) \<le> 2 \<and> finite_workload example_workload \<and>
   heap_ok 2 (length example_bounds) example_st0 \<and>
   pollinate example_draws example_bounds 2 0 example_st0 = Inr example_st_mid \<and>
   heap example_st_mid ! 0 = heap example_st0 ! 0 \<and>
   heap example_st_mid ! 1 = heap example_st0 ! 1 \<and>
   length (heap example_st0) \<le> population example_st_mid ! 0 \<and>
   best_solution example_st_mid = best_solution example_st0 \<and>
   best_solution example_st_mid < length (heap example_st0)"
proof -
  have len: "length example_bounds = 2" by (simp add: example_bounds_def)
  have ok: "heap_ok 2 (length example_bounds) example_st0"
    using example_heap_ok len by simp
  have l0: "length (heap example_st0) = 2" by (simp add: example_st0_def)
  show ?thesis
    using returned_best_is_consistent
      [where rs = example_draws and max_generations = 1 and population_size = 2
         and bounds = example_bounds and w = example_workload
         and out = "\<lparr>returned = PyTuple [PyArray [1, 1 / 10], PyFloat 1130],
                      plotted = [18135 / 16, 1130], printed = [(1, 1130)]\<rparr>"
         and P = 2 and s = example_st0 and i = 0 and s' = example_st_mid]
      example_run example_workload_finite ok example_pollinate l0
    by simp
qed

end
